theory Spec2Isabelle
  imports Main "HOL-Library.Word"
begin

unbundle bit_operations_syntax

section \<open>The machine state of the CHIP-8 emulator (src/app.c)\<close>

type_synonym u8 = "8 word"
type_synonym u16 = "16 word"
type_synonym u32 = "32 word"

text \<open>
  \<^verbatim>\<open>struct emulator\<close> without its three SDL handles. A C array of fixed length
  is a function from indices; the declared lengths are \<^verbatim>\<open>memory[4096]\<close>,
  \<^verbatim>\<open>registers[16]\<close>, \<^verbatim>\<open>gfx[64 * 32]\<close>, \<^verbatim>\<open>stack[16]\<close> and \<^verbatim>\<open>keys[16]\<close>.
  Every access whose index the code does not keep below the length by
  construction goes through a bounds check, and an index outside the array
  (undefined behaviour in C) is the value \<open>Inl\<close> of a fault.
\<close>

record emulator =
  memory :: "nat \<Rightarrow> u8"
  rom_size :: u32
  registers :: "nat \<Rightarrow> u8"
  index_register :: u16
  program_counter :: u16
  gfx :: "nat \<Rightarrow> u32"
  draw_flag :: bool
  delay_timer :: u8
  sound_timer :: u8
  stack :: "nat \<Rightarrow> u16"
  stack_ptr :: u16
  keys :: "nat \<Rightarrow> u8"

datatype fault =
  MemoryOutOfBounds nat
| GfxOutOfBounds nat
| StackOutOfBounds nat
| KeysOutOfBounds nat

text \<open>What the program prints: the unknown-opcode reports (the tag in brackets,
  then the opcode) and the beep of the sound timer.\<close>

datatype event =
  UnknownOpcodeIn u16 u16
| UnknownOpcode u16
| Beep

text \<open>How an instruction leaves the \<^verbatim>\<open>switch\<close>: \<open>Break\<close> goes on to the
  timers, \<open>Return\<close> is the \<^verbatim>\<open>return\<close> of FX0A that leaves the function.\<close>

datatype flow = Break | Return

type_synonym result = "fault + emulator \<times> event list \<times> flow"

definition font_set :: "u8 list" where
  "font_set =
   [0xF0, 0x90, 0x90, 0x90, 0xF0,
    0x20, 0x60, 0x20, 0x20, 0x70,
    0xF0, 0x10, 0xF0, 0x80, 0xF0,
    0xF0, 0x10, 0xF0, 0x10, 0xF0,
    0x90, 0x90, 0xF0, 0x10, 0x10,
    0xF0, 0x80, 0xF0, 0x10, 0xF0,
    0xF0, 0x80, 0xF0, 0x90, 0xF0,
    0xF0, 0x10, 0x20, 0x40, 0x40,
    0xF0, 0x90, 0xF0, 0x90, 0xF0,
    0xF0, 0x90, 0xF0, 0x10, 0xF0,
    0xF0, 0x90, 0xF0, 0x90, 0x90,
    0xE0, 0x90, 0xE0, 0x90, 0xE0,
    0xF0, 0x80, 0x80, 0x80, 0xF0,
    0xE0, 0x90, 0x90, 0x90, 0xE0,
    0xF0, 0x80, 0xF0, 0x80, 0xF0,
    0xF0, 0x80, 0xF0, 0x80, 0x80]"

text \<open>\<^verbatim>\<open>struct emulator emu = {0}\<close> in \<^verbatim>\<open>main\<close>.\<close>

definition emulator_zero :: emulator where
  "emulator_zero =
   \<lparr>memory = (\<lambda>_. 0), rom_size = 0, registers = (\<lambda>_. 0), index_register = 0,
    program_counter = 0, gfx = (\<lambda>_. 0), draw_flag = False, delay_timer = 0,
    sound_timer = 0, stack = (\<lambda>_. 0), stack_ptr = 0, keys = (\<lambda>_. 0)\<rparr>"

text \<open>Consecutive bytes stored from an address on: the font loop of
  \<^verbatim>\<open>init\<close> and the \<^verbatim>\<open>fread\<close> of \<^verbatim>\<open>load_rom\<close>.\<close>

fun write_bytes :: "(nat \<Rightarrow> u8) \<Rightarrow> nat \<Rightarrow> u8 list \<Rightarrow> (nat \<Rightarrow> u8)" where
  "write_bytes mem a [] = mem"
| "write_bytes mem a (b # bs) = write_bytes (mem(a := b)) (Suc a) bs"

text \<open>\<^verbatim>\<open>init\<close>, the SDL calls left out: the program counter and the font.\<close>

definition init :: "emulator \<Rightarrow> emulator" where
  "init emu =
   emu\<lparr>program_counter := 0x200,
       memory := write_bytes (memory emu) 0x50 font_set\<rparr>"

section \<open>The loader\<close>

text \<open>
  The file behind \<^verbatim>\<open>fp\<close>: \<open>file_size\<close> is what \<^verbatim>\<open>ftell\<close> reports at the
  end of the file, \<open>file_data\<close> the bytes \<^verbatim>\<open>fread\<close> can deliver. A file that
  reads in full has \<open>length (file_data f) = file_size f\<close>; a read that stops
  early delivers fewer. \<open>None\<close> is the null pointer of a failed \<^verbatim>\<open>fopen\<close>.
\<close>

datatype rom_file = RomFile (file_size: nat) (file_data: "u8 list")

datatype load_event =
  RomBinary nat "u8 list"
| RomTooLarge nat
| LoadingRom bool

definition load_rom :: "emulator \<Rightarrow> rom_file option \<Rightarrow> bool \<times> emulator \<times> load_event list" where
  "load_rom emu fp =
   (case fp of
      None \<Rightarrow> (False, emu, [LoadingRom False])
    | Some f \<Rightarrow>
        (let len = file_size f;
             available_memory = 0xFFF - 0x200
         in if len \<le> available_memory then
              (let got = take len (file_data f);
                   emu1 = emu\<lparr>memory := write_bytes (memory emu) 0x200 got\<rparr>
               in if length got = len then
                    (True, emu1\<lparr>rom_size := of_nat len\<rparr>,
                     [RomBinary len (map (\<lambda>i. memory emu1 (0x200 + i)) [0..<len]),
                      LoadingRom True])
                  else (False, emu1, [LoadingRom False]))
            else (False, emu, [RomTooLarge len, LoadingRom False])))"

section \<open>The emulation cycle\<close>

definition VX :: "u16 \<Rightarrow> nat" where
  "VX opcode = unat (drop_bit 8 (opcode AND 0x0F00))"

definition VY :: "u16 \<Rightarrow> nat" where
  "VY opcode = unat (drop_bit 4 (opcode AND 0x00F0))"

definition mem_read :: "emulator \<Rightarrow> nat \<Rightarrow> fault + u8" where
  "mem_read emu a = (if a < 4096 then Inr (memory emu a) else Inl (MemoryOutOfBounds a))"

definition mem_write :: "emulator \<Rightarrow> nat \<Rightarrow> u8 \<Rightarrow> fault + emulator" where
  "mem_write emu a v =
   (if a < 4096 then Inr (emu\<lparr>memory := (memory emu)(a := v)\<rparr>)
    else Inl (MemoryOutOfBounds a))"

definition set_reg :: "emulator \<Rightarrow> nat \<Rightarrow> u8 \<Rightarrow> emulator" where
  "set_reg emu i v = emu\<lparr>registers := (registers emu)(i := v)\<rparr>"

text \<open>\<^verbatim>\<open>emu->program_counter += n\<close>, on 16 bits.\<close>

definition advance :: "emulator \<Rightarrow> u16 \<Rightarrow> emulator" where
  "advance emu n = emu\<lparr>program_counter := program_counter emu + n\<rparr>"

text \<open>A counted \<^verbatim>\<open>for\<close> loop whose body may fault: the body runs on each
  index in turn and the first fault ends the loop.\<close>

fun fold_fault :: "('a \<Rightarrow> 's \<Rightarrow> fault + 's) \<Rightarrow> 'a list \<Rightarrow> 's \<Rightarrow> fault + 's" where
  "fold_fault f [] s = Inr s"
| "fold_fault f (x # xs) s =
     (case f x s of Inl e \<Rightarrow> Inl e | Inr s' \<Rightarrow> fold_fault f xs s')"

text \<open>\<^verbatim>\<open>u16 opcode = memory[pc] << 8 | memory[pc + 1]\<close>.\<close>

definition fetch :: "emulator \<Rightarrow> fault + u16" where
  "fetch emu =
   (case mem_read emu (unat (program_counter emu)) of
      Inl e \<Rightarrow> Inl e
    | Inr hi \<Rightarrow>
        (case mem_read emu (unat (program_counter emu) + 1) of
           Inl e \<Rightarrow> Inl e
         | Inr lo \<Rightarrow> Inr (push_bit 8 (ucast hi) OR ucast lo)))"

text \<open>\<^verbatim>\<open>case 0x0000\<close>: clear screen, return from subroutine.\<close>

definition op_0000 :: "emulator \<Rightarrow> u16 \<Rightarrow> result" where
  "op_0000 emu opcode =
   (let code = opcode AND 0x00FF in
    if code = 0x00E0 then
      Inr (advance (emu\<lparr>gfx := (\<lambda>i. if i < 64 * 32 then 0 else gfx emu i),
                        draw_flag := True\<rparr>) 2, [], Break)
    else if code = 0x00EE then
      (let sp = stack_ptr emu - 1 in
       if unat sp < 16 then
         (let address = stack emu (unat sp) in
          Inr (advance (emu\<lparr>stack_ptr := sp, program_counter := address\<rparr>) 2, [], Break))
       else Inl (StackOutOfBounds (unat sp)))
    else Inr (emu, [UnknownOpcodeIn 0x0000 opcode], Break))"

text \<open>\<^verbatim>\<open>case 0x8000\<close>: the register-to-register operations. The flag is
  stored first and the destination is then updated in place, so the second
  store reads the registers as the first left them.\<close>

definition op_8000 :: "emulator \<Rightarrow> u16 \<Rightarrow> result" where
  "op_8000 emu opcode =
   (let code = opcode AND 0x000F; x = VX opcode; y = VY opcode in
    if code = 0x0000 then
      (let vy = registers emu y in Inr (advance (set_reg emu x vy) 2, [], Break))
    else if code = 0x0001 then
      (let vy = registers emu y in
       Inr (advance (set_reg emu x (registers emu x OR vy)) 2, [], Break))
    else if code = 0x0002 then
      (let vy = registers emu y in
       Inr (advance (set_reg emu x (registers emu x AND vy)) 2, [], Break))
    else if code = 0x0003 then
      (let vy = registers emu y in
       Inr (advance (set_reg emu x (registers emu x XOR vy)) 2, [], Break))
    else if code = 0x0004 then
      (let vx = registers emu x; vy = registers emu y;
           emu1 = set_reg emu 0xF (if vy > vx then 1 else 0);
           emu2 = set_reg emu1 x (registers emu1 x + vy)
       in Inr (advance emu2 2, [], Break))
    else if code = 0x0005 then
      (let vx = registers emu x; vy = registers emu y;
           emu1 = set_reg emu 0xF (if vy > vx then 0 else 1);
           emu2 = set_reg emu1 x (registers emu1 x - vy)
       in Inr (advance emu2 2, [], Break))
    else if code = 0x0006 then
      (let vx = registers emu x;
           emu1 = set_reg emu 0xF (vx AND 0x01);
           emu2 = set_reg emu1 x (drop_bit 1 (registers emu1 x))
       in Inr (advance emu2 2, [], Break))
    else if code = 0x0007 then
      (let vx = registers emu x; vy = registers emu y;
           emu1 = set_reg emu 0xF (if vx > vy then 0 else 1);
           emu2 = set_reg emu1 x (vy - vx)
       in Inr (advance emu2 2, [], Break))
    else if code = 0x000E then
      (let emu1 = set_reg emu 0xF (drop_bit 7 (registers emu x));
           emu2 = set_reg emu1 x (push_bit 1 (registers emu1 x))
       in Inr (advance emu2 2, [], Break))
    else Inr (emu, [UnknownOpcodeIn 0x8000 opcode], Break))"

text \<open>\<^verbatim>\<open>case 0xD000\<close>: one set sprite bit. \<open>vx\<close> and \<open>vy\<close> are the register
  values and \<open>x\<close>, \<open>y\<close> the loop counters, all widened to \<^verbatim>\<open>u32\<close>.\<close>

definition plot :: "nat \<Rightarrow> nat \<Rightarrow> nat \<Rightarrow> nat \<Rightarrow> emulator \<Rightarrow> fault + emulator" where
  "plot vx vy y x emu =
   (let dest_x = (if vx + x > 64 then 64 else vx + x);
        dest_y = (if vy + y > 32 then 32 else vy + y);
        dest_pixel = (dest_y * 64) + dest_x
    in if dest_pixel < 64 * 32 then
         (let emu1 = (if gfx emu dest_pixel = 0xFFFFFFFF then set_reg emu 0xF 1 else emu)
          in Inr (emu1\<lparr>gfx := (gfx emu1)(dest_pixel := gfx emu1 dest_pixel XOR 0xFFFFFFFF)\<rparr>))
       else Inl (GfxOutOfBounds dest_pixel))"

text \<open>The body of the outer loop: one sprite row, eight columns.\<close>

definition draw_row :: "nat \<Rightarrow> nat \<Rightarrow> nat \<Rightarrow> emulator \<Rightarrow> fault + emulator" where
  "draw_row vx vy y emu =
   (case mem_read emu (unat (index_register emu) + y) of
      Inl e \<Rightarrow> Inl e
    | Inr row \<Rightarrow>
        fold_fault
          (\<lambda>x emu'. let col = row AND drop_bit x 0x80
                    in if col \<noteq> 0 then plot vx vy y x emu' else Inr emu')
          [0..<8] emu)"

definition op_D000 :: "emulator \<Rightarrow> u16 \<Rightarrow> result" where
  "op_D000 emu opcode =
   (let vx = registers emu (VX opcode);
        vy = registers emu (VY opcode);
        height = unat (opcode AND 0x000F);
        emu1 = set_reg emu 0xF 0
    in case fold_fault (draw_row (unat vx) (unat vy)) [0..<height] emu1 of
         Inl e \<Rightarrow> Inl e
       | Inr emu2 \<Rightarrow> Inr (advance (emu2\<lparr>draw_flag := True\<rparr>) 2, [], Break))"

text \<open>\<^verbatim>\<open>case 0xE000\<close>: skip on a key. The key index is the register value,
  which the code does not bound.\<close>

definition op_E000 :: "emulator \<Rightarrow> u16 \<Rightarrow> result" where
  "op_E000 emu opcode =
   (let code = opcode AND 0x00FF in
    if code = 0x009E then
      (let vx = unat (registers emu (VX opcode)) in
       if vx < 16 then
         Inr (advance emu (if keys emu vx \<noteq> 0 then 4 else 2), [], Break)
       else Inl (KeysOutOfBounds vx))
    else if code = 0x00A1 then
      (let vx = unat (registers emu (VX opcode)) in
       if vx < 16 then
         Inr (advance emu (if keys emu vx = 0 then 4 else 2), [], Break)
       else Inl (KeysOutOfBounds vx))
    else Inr (emu, [UnknownOpcodeIn 0xE000 opcode], Break))"

text \<open>The key scan of FX0A: all sixteen flags, no \<^verbatim>\<open>break\<close>.\<close>

definition scan_keys :: "emulator \<Rightarrow> nat \<Rightarrow> emulator \<times> bool" where
  "scan_keys emu x =
   fold (\<lambda>i (emu', key_pressed).
           if keys emu' i \<noteq> 0 then (set_reg emu' x (of_nat i), True)
           else (emu', key_pressed))
        [0..<16] (emu, False)"

text \<open>\<^verbatim>\<open>case 0xF000\<close>: timers, keys, index register, BCD, register dump and load.\<close>

definition op_F000 :: "emulator \<Rightarrow> u16 \<Rightarrow> result" where
  "op_F000 emu opcode =
   (let code = opcode AND 0x00FF; x = VX opcode in
    if code = 0x0007 then
      Inr (advance (set_reg emu x (delay_timer emu)) 2, [], Break)
    else if code = 0x000A then
      (case scan_keys emu x of
         (emu1, key_pressed) \<Rightarrow>
           if key_pressed then Inr (advance emu1 2, [], Break)
           else Inr (emu1, [], Return))
    else if code = 0x0015 then
      (let vx = registers emu x in Inr (advance (emu\<lparr>delay_timer := vx\<rparr>) 2, [], Break))
    else if code = 0x0018 then
      (let vx = registers emu x in Inr (advance (emu\<lparr>sound_timer := vx\<rparr>) 2, [], Break))
    else if code = 0x001E then
      (let vx = registers emu x;
           emu1 = set_reg emu 0xF
                    (if unat (index_register emu) + unat vx > 0xFFF then 1 else 0)
       in Inr (advance (emu1\<lparr>index_register := index_register emu1 + ucast vx\<rparr>) 2,
               [], Break))
    else if code = 0x0029 then
      (let vx = registers emu x in
       Inr (advance (emu\<lparr>index_register := of_nat (0x50 + unat vx * 5)\<rparr>) 2, [], Break))
    else if code = 0x0033 then
      (let I = unat (index_register emu); vx = registers emu x in
       case mem_write emu I (vx div 100) of
         Inl e \<Rightarrow> Inl e
       | Inr emu1 \<Rightarrow>
           (case mem_write emu1 (I + 1) ((vx div 10) mod 10) of
              Inl e \<Rightarrow> Inl e
            | Inr emu2 \<Rightarrow>
                (case mem_write emu2 (I + 2) ((vx mod 100) mod 10) of
                   Inl e \<Rightarrow> Inl e
                 | Inr emu3 \<Rightarrow> Inr (advance emu3 2, [], Break))))
    else if code = 0x0055 then
      (case fold_fault
              (\<lambda>i emu'. mem_write emu' (unat (index_register emu') + i) (registers emu' i))
              [0..<x + 1] emu of
         Inl e \<Rightarrow> Inl e
       | Inr emu1 \<Rightarrow> Inr (advance emu1 2, [], Break))
    else if code = 0x0065 then
      (case fold_fault
              (\<lambda>i emu'. case mem_read emu' (unat (index_register emu') + i) of
                           Inl e \<Rightarrow> Inl e
                         | Inr v \<Rightarrow> Inr (set_reg emu' i v))
              [0..<x + 1] emu of
         Inl e \<Rightarrow> Inl e
       | Inr emu1 \<Rightarrow> Inr (advance emu1 2, [], Break))
    else Inr (emu, [UnknownOpcodeIn 0xF000 opcode], Break))"

text \<open>The outer \<^verbatim>\<open>switch (opcode & 0xF000)\<close>. \<open>rnd\<close> is the value
  \<^verbatim>\<open>rand ()\<close> returns in CXNN.\<close>

definition execute :: "emulator \<Rightarrow> u16 \<Rightarrow> nat \<Rightarrow> result" where
  "execute emu opcode rnd =
   (let cls = opcode AND 0xF000 in
    if cls = 0x0000 then op_0000 emu opcode
    else if cls = 0x1000 then
      Inr (emu\<lparr>program_counter := opcode AND 0x0FFF\<rparr>, [], Break)
    else if cls = 0x2000 then
      (let sp = unat (stack_ptr emu) in
       if sp < 16 then
         Inr (emu\<lparr>stack := (stack emu)(sp := program_counter emu),
                  stack_ptr := stack_ptr emu + 1,
                  program_counter := opcode AND 0x0FFF\<rparr>, [], Break)
       else Inl (StackOutOfBounds sp))
    else if cls = 0x3000 then
      (let vx = registers emu (VX opcode); nn = ucast (opcode AND 0x00FF) in
       Inr (advance emu (if vx = nn then 4 else 2), [], Break))
    else if cls = 0x4000 then
      (let vx = registers emu (VX opcode); nn = ucast (opcode AND 0x00FF) in
       Inr (advance emu (if vx \<noteq> nn then 4 else 2), [], Break))
    else if cls = 0x5000 then
      (let vx = registers emu (VX opcode); vy = registers emu (VY opcode) in
       Inr (advance emu (if vx = vy then 4 else 2), [], Break))
    else if cls = 0x6000 then
      Inr (advance (set_reg emu (VX opcode) (ucast (opcode AND 0x00FF))) 2, [], Break)
    else if cls = 0x7000 then
      (let index = VX opcode; nn = ucast (opcode AND 0x00FF) in
       Inr (advance (set_reg emu index (registers emu index + nn)) 2, [], Break))
    else if cls = 0x8000 then op_8000 emu opcode
    else if cls = 0x9000 then
      (let vx = registers emu (VX opcode); vy = registers emu (VY opcode) in
       Inr (advance emu (if vx \<noteq> vy then 4 else 2), [], Break))
    else if cls = 0xA000 then
      Inr (advance (emu\<lparr>index_register := opcode AND 0x0FFF\<rparr>) 2, [], Break)
    else if cls = 0xB000 then
      Inr (emu\<lparr>program_counter := (opcode AND 0x0FFF) + ucast (registers emu 0)\<rparr>,
           [], Break)
    else if cls = 0xC000 then
      Inr (advance (set_reg emu (VX opcode)
                      (of_nat (rnd mod 0xFF) AND ucast (opcode AND 0x00FF))) 2,
           [], Break)
    else if cls = 0xD000 then op_D000 emu opcode
    else if cls = 0xE000 then op_E000 emu opcode
    else if cls = 0xF000 then op_F000 emu opcode
    else Inr (emu, [UnknownOpcode opcode], Break))"

text \<open>The two timers at the end of the cycle.\<close>

definition tick_timers :: "emulator \<Rightarrow> emulator \<times> event list" where
  "tick_timers emu =
   (let emu1 = (if delay_timer emu > 0 then emu\<lparr>delay_timer := delay_timer emu - 1\<rparr>
                else emu)
    in if sound_timer emu1 > 0 then
         (emu1\<lparr>sound_timer := sound_timer emu1 - 1\<rparr>,
          if sound_timer emu1 = 1 then [Beep] else [])
       else (emu1, []))"

text \<open>\<^verbatim>\<open>emulation_cycle\<close>: fetch, execute, then the timers unless the
  instruction returned.\<close>

definition emulation_cycle :: "emulator \<Rightarrow> nat \<Rightarrow> fault + emulator \<times> event list" where
  "emulation_cycle emu rnd =
   (case fetch emu of
      Inl e \<Rightarrow> Inl e
    | Inr opcode \<Rightarrow>
        (case execute emu opcode rnd of
           Inl e \<Rightarrow> Inl e
         | Inr (emu1, out, Return) \<Rightarrow> Inr (emu1, out)
         | Inr (emu1, out, Break) \<Rightarrow>
             (case tick_timers emu1 of (emu2, out') \<Rightarrow> Inr (emu2, out @ out'))))"

section \<open>Predicates of the claims\<close>

text \<open>An instruction word of one of the four classes with an inner
  \<^verbatim>\<open>switch\<close> whose secondary code is none of that switch's case labels.\<close>

definition unknown_secondary :: "u16 \<Rightarrow> bool" where
  "unknown_secondary opcode =
   (let cls = opcode AND 0xF000 in
    (cls = 0x0000 \<and> opcode AND 0x00FF \<notin> {0x00E0, 0x00EE}) \<or>
    (cls = 0x8000 \<and> opcode AND 0x000F \<notin> {0x0, 0x1, 0x2, 0x3, 0x4, 0x5, 0x6, 0x7, 0xE}) \<or>
    (cls = 0xE000 \<and> opcode AND 0x00FF \<notin> {0x009E, 0x00A1}) \<or>
    (cls = 0xF000 \<and>
       opcode AND 0x00FF \<notin> {0x0007, 0x000A, 0x0015, 0x0018, 0x001E, 0x0029, 0x0033, 0x0055, 0x0065}))"

text \<open>The cycle about to run transfers control to an even address, if it
  transfers control at all: a jump 1NNN or a call 2NNN has an even NNN, a
  jump with offset BNNN an even NNN + V0.\<close>

definition even_transfer :: "emulator \<Rightarrow> bool" where
  "even_transfer emu =
   (case fetch emu of
      Inl e \<Rightarrow> True
    | Inr opcode \<Rightarrow>
        (let cls = opcode AND 0xF000 in
         (cls = 0x1000 \<or> cls = 0x2000 \<longrightarrow> even (opcode AND 0x0FFF)) \<and>
         (cls = 0xB000 \<longrightarrow> even ((opcode AND 0x0FFF) + ucast (registers emu 0)))))"

text \<open>
  The states of the host loop of \<^verbatim>\<open>main\<close> reached by cycles that stay inside
  the arrays and transfer control to even addresses only. The machine is
  zeroed, initialised and loaded; then, each time round, \<^verbatim>\<open>handle_input\<close>
  stores key flags \<open>ks\<close> and one cycle runs with some value \<open>rnd\<close> of
  \<^verbatim>\<open>rand ()\<close>. The rule \<open>cycle\<close> has two conditions on the cycle it adds:
  \<^item> \<open>even_transfer\<close>: a jump, call or jump with offset goes to an even address;
  \<^item> the cycle ends in \<open>Inr\<close>: it indexes none of \<^verbatim>\<open>memory\<close>, \<^verbatim>\<open>gfx\<close>,
    \<^verbatim>\<open>stack\<close> and \<^verbatim>\<open>keys\<close> outside its bounds.
  A cycle that does index outside an array is a fault of the model and ends the
  run here. In C it is undefined behaviour: the store lands in whatever
  follows the array in \<^verbatim>\<open>struct emulator\<close> (the stack and the program counter
  among them), and nothing is claimed about the states that follow it.
\<close>

inductive in_bounds_even_run :: "emulator \<Rightarrow> bool" where
  loaded: "load_rom (init emulator_zero) fp = (True, emu, out) \<Longrightarrow> in_bounds_even_run emu"
| cycle: "in_bounds_even_run emu \<Longrightarrow> even_transfer (emu\<lparr>keys := ks\<rparr>) \<Longrightarrow>
          emulation_cycle (emu\<lparr>keys := ks\<rparr>) rnd = Inr (emu', out) \<Longrightarrow> in_bounds_even_run emu'"

text \<open>Invariants of the proofs: the program counter and all return addresses
  are even; two states have the same program counter and stack; the second
  state has the stack of the first and its program counter moved on by 0, 2
  or 4.\<close>

definition ctl_even :: "emulator \<Rightarrow> bool" where
  "ctl_even emu \<longleftrightarrow> even (program_counter emu) \<and> (\<forall>i. even (stack emu i))"

definition same_ctl :: "emulator \<Rightarrow> emulator \<Rightarrow> bool" where
  "same_ctl a b \<longleftrightarrow> program_counter b = program_counter a \<and> stack b = stack a"

definition ctl_advance :: "emulator \<Rightarrow> emulator \<Rightarrow> bool" where
  "ctl_advance a b \<longleftrightarrow>
     stack b = stack a \<and>
     (program_counter b = program_counter a \<or> program_counter b = program_counter a + 2 \<or>
      program_counter b = program_counter a + 4)"

section \<open>Basic facts\<close>

lemma write_bytes_apply:
  "write_bytes mem a bs i = (if a \<le> i \<and> i < a + length bs then bs ! (i - a) else mem i)"
proof (induction bs arbitrary: mem a)
  case Nil
  then show ?case by auto
next
  case (Cons b bs)
  have "write_bytes (mem(a := b)) (Suc a) bs i =
        (if Suc a \<le> i \<and> i < Suc a + length bs then bs ! (i - Suc a) else (mem(a := b)) i)"
    by (rule Cons.IH)
  then show ?case by (auto simp: nth_Cons' not_less_eq_eq)
qed

text \<open>The register indices the code takes from an opcode are below 16, the
  length of \<^verbatim>\<open>registers\<close>.\<close>

lemma nibble_less: "unat ((w :: u16) AND 0xF) < 16"
proof -
  have "w AND 0xF \<le> 0xF" by (rule word_and_le1)
  then have "unat (w AND 0xF) \<le> unat (0xF :: u16)" by (simp only: word_le_nat_alt)
  then show ?thesis by simp
qed

lemma VX_less: "VX opcode < 16"
  using nibble_less [of "drop_bit 8 opcode"] by (simp add: VX_def)

lemma VY_less: "VY opcode < 16"
  using nibble_less [of "drop_bit 4 opcode"] by (simp add: VY_def)

lemma upt_0_8: "[0..<8] = [0, 1, 2, 3, 4, 5, 6, 7]"
  by (simp add: upt_rec)

lemmas cycle_defs =
  emulation_cycle_def fetch_def mem_read_def mem_write_def execute_def op_0000_def op_8000_def
  op_D000_def op_E000_def op_F000_def draw_row_def plot_def scan_keys_def VX_def VY_def
  set_reg_def advance_def tick_timers_def Let_def

lemmas boot_defs = load_rom_def init_def emulator_zero_def

text \<open>Facts shared by the sections below: the timers, the shape of a cycle, the
  loader on a file that reads in full and on one that is too large.\<close>

lemma tick_timers_eq:
  "tick_timers emu =
   (emu\<lparr>delay_timer := (if 0 < delay_timer emu then delay_timer emu - 1 else delay_timer emu),
        sound_timer := (if 0 < sound_timer emu then sound_timer emu - 1 else sound_timer emu)\<rparr>,
    if sound_timer emu = 1 then [Beep] else [])"
  by (auto simp: tick_timers_def Let_def)

lemma tick_timers_frame:
  "program_counter (fst (tick_timers emu)) = program_counter emu"
  "stack_ptr (fst (tick_timers emu)) = stack_ptr emu"
  "stack (fst (tick_timers emu)) = stack emu"
  "registers (fst (tick_timers emu)) = registers emu"
  "memory (fst (tick_timers emu)) = memory emu"
  by (simp_all add: tick_timers_eq)

lemma fetch_in_range:
  assumes "fetch emu = Inr opcode"
  shows "unat (program_counter emu) + 1 < 4096"
  using assms by (auto simp: fetch_def mem_read_def split: if_splits sum.splits)

lemma pc_plus_2:
  assumes "unat (pc :: u16) + 1 < 4096"
  shows "unat (pc + 2) = unat pc + 2"
proof -
  have "unat pc + unat (2 :: u16) < 2 ^ LENGTH(16)" using assms by simp
  then have "unat (pc + 2) = unat pc + unat (2 :: u16)" by (simp only: unat_add_lem)
  then show ?thesis by simp
qed

lemma flag_Return_cycle:
  "fetch emu = Inr opcode \<Longrightarrow> execute emu opcode rnd = Inr (emu1, out, Return) \<Longrightarrow>
   emulation_cycle emu rnd = Inr (emu1, out)"
  by (simp add: emulation_cycle_def)

lemma flag_Break_cycle:
  "fetch emu = Inr opcode \<Longrightarrow> execute emu opcode rnd = Inr (emu1, out, Break) \<Longrightarrow>
   emulation_cycle emu rnd = Inr (fst (tick_timers emu1), out @ snd (tick_timers emu1))"
  by (simp add: emulation_cycle_def split: prod.splits)

lemma cycle_Break:
  assumes "fetch emu = Inr opcode" and "execute emu opcode rnd = Inr (emu1, out, Break)"
  shows "emulation_cycle emu rnd =
         Inr (emu1\<lparr>delay_timer := (if 0 < delay_timer emu1 then delay_timer emu1 - 1
                                     else delay_timer emu1),
                   sound_timer := (if 0 < sound_timer emu1 then sound_timer emu1 - 1
                                     else sound_timer emu1)\<rparr>,
              out @ (if sound_timer emu1 = 1 then [Beep] else []))"
  using flag_Break_cycle [OF assms] by (simp add: tick_timers_eq)

lemma fetch_set_reg: "fetch (set_reg emu i v) = fetch emu"
  by (simp add: fetch_def mem_read_def set_reg_def)

lemma write_bytes_fun:
  "write_bytes mem a bs = (\<lambda>i. if a \<le> i \<and> i < a + length bs then bs ! (i - a) else mem i)"
  by (rule ext) (rule write_bytes_apply)

lemma even_unat_word: "even (unat (w :: u16)) \<longleftrightarrow> even w"
proof -
  have "unat (w mod 2) = unat w mod 2" by (simp add: unat_mod)
  then have "unat w mod 2 = 0 \<longleftrightarrow> w mod 2 = 0" by (simp flip: unat_eq_0)
  then show ?thesis by (simp only: even_iff_mod_2_eq_zero)
qed

lemma load_rom_full_read:
  assumes "length bytes \<le> 3583"
  shows "load_rom emu (Some (RomFile (length bytes) bytes)) =
         (True,
          emu\<lparr>memory := write_bytes (memory emu) 0x200 bytes,
              rom_size := of_nat (length bytes)\<rparr>,
          [RomBinary (length bytes) bytes, LoadingRom True])"
proof -
  have "map (\<lambda>i. write_bytes (memory emu) 0x200 bytes (0x200 + i)) [0..<length bytes] = bytes"
    by (rule nth_equalityI) (simp_all add: write_bytes_apply)
  with assms show ?thesis by (simp add: load_rom_def Let_def)
qed

lemma load_rom_too_large:
  assumes "3583 < file_size f"
  shows "load_rom emu (Some f) = (False, emu, [RomTooLarge (file_size f), LoadingRom False])"
  using assms by (simp add: load_rom_def Let_def)

section \<open>Register-to-register add (8XY4)\<close>

text \<open>
  Claim C1. The claim: 8XY4 with register X holding 0xFF and register Y holding
  0x01 yields X = 0x00 and flag VF = 1; with X = 0x01 and Y = 0x01 it yields
  X = 0x02 and VF = 0. The code sets the flag from the test \<^verbatim>\<open>vy > vx\<close>, so
  the machine started on the program 80 14 with V0 = 0xFF, V1 = 0x01 ends the
  cycle with V0 = 0x00 and VF = 0: the carry out of 0xFF + 0x01 is not reported.
  On V0 = V1 = 0x01 the cycle gives V0 = 0x02 and VF = 0, as claimed.
\<close>

theorem add_FF_01_flag_clear:
  "(case emulation_cycle
           ((fst (snd (load_rom (init emulator_zero) (Some (RomFile 2 [0x80, 0x14])))))
              \<lparr>registers := (\<lambda>_. 0)(0 := 0xFF, 1 := 0x01)\<rparr>) rnd of
      Inl e \<Rightarrow> False
    | Inr (emu', out) \<Rightarrow> registers emu' 0 = 0x00 \<and> registers emu' 0xF = 0) \<and>
   (case emulation_cycle
           ((fst (snd (load_rom (init emulator_zero) (Some (RomFile 2 [0x80, 0x14])))))
              \<lparr>registers := (\<lambda>_. 0)(0 := 0x01, 1 := 0x01)\<rparr>) rnd of
      Inl e \<Rightarrow> False
    | Inr (emu', out) \<Rightarrow> registers emu' 0 = 0x02 \<and> registers emu' 0xF = 0)"
  by (simp add: cycle_defs boot_defs)

section \<open>Draw sprite (DXYN)\<close>

text \<open>
  Claim C3. The claim: every framebuffer cell that draw-sprite reads or toggles
  has a linear index below 2048, coordinates outside the grid being clamped to
  column 63 and row 31. The code clamps with \<^verbatim>\<open>vy + y > 32 ? 32 : vy + y\<close>
  (and 64 for the column), so row 32 and column 64 pass the clamp. With
  V0 = 0, V1 = 32, the index register at a byte 0x80 and the instruction D011,
  the first set bit addresses cell 32 * 64 + 0 = 2048, one past the array.
\<close>

theorem draw_row_32_out_of_bounds:
  "emulation_cycle
     ((fst (snd (load_rom (init emulator_zero) (Some (RomFile 3 [0xD0, 0x11, 0x80])))))
        \<lparr>registers := (\<lambda>_. 0)(0 := 0, 1 := 32), index_register := 0x202\<rparr>) rnd
   = Inl (GfxOutOfBounds 2048)"
  by (simp add: cycle_defs boot_defs upt_0_8)

text \<open>
  Claim C4. The claim: draw-sprite places the sprite from the start coordinates
  (VX mod 64, VY mod 32). The code computes \<^verbatim>\<open>x = vx % 64\<close> and
  \<^verbatim>\<open>y = vy % 32\<close> and then declares loop counters of the same names, so the
  destination is computed from the raw register values. With V0 = 70, V1 = 0,
  a sprite byte 0x80 and the instruction D011 the cell toggled is 64 (the
  clamped column 64 of row 0), and cell 6 = 70 mod 64 stays clear.
\<close>

theorem draw_x_70_not_wrapped:
  "case emulation_cycle
          ((fst (snd (load_rom (init emulator_zero) (Some (RomFile 3 [0xD0, 0x11, 0x80])))))
             \<lparr>registers := (\<lambda>_. 0)(0 := 70, 1 := 0), index_register := 0x202\<rparr>) rnd of
     Inl e \<Rightarrow> False
   | Inr (emu', out) \<Rightarrow> gfx emu' 64 = 0xFFFFFFFF \<and> gfx emu' 6 = 0"
  by (simp add: cycle_defs boot_defs upt_0_8)

section \<open>Unknown secondary codes\<close>

lemma execute_unknown_0:
  "opcode AND 0xF000 = 0x0000 \<Longrightarrow> opcode AND 0x00FF \<notin> {0x00E0, 0x00EE} \<Longrightarrow>
   execute emu opcode rnd = Inr (emu, [UnknownOpcodeIn 0x0000 opcode], Break)"
  by (simp add: execute_def op_0000_def Let_def)

lemma execute_unknown_8:
  "opcode AND 0xF000 = 0x8000 \<Longrightarrow>
   opcode AND 0x000F \<notin> {0x0, 0x1, 0x2, 0x3, 0x4, 0x5, 0x6, 0x7, 0xE} \<Longrightarrow>
   execute emu opcode rnd = Inr (emu, [UnknownOpcodeIn 0x8000 opcode], Break)"
  by (simp add: execute_def op_8000_def Let_def)

lemma execute_unknown_E:
  "opcode AND 0xF000 = 0xE000 \<Longrightarrow> opcode AND 0x00FF \<notin> {0x009E, 0x00A1} \<Longrightarrow>
   execute emu opcode rnd = Inr (emu, [UnknownOpcodeIn 0xE000 opcode], Break)"
  by (simp add: execute_def op_E000_def Let_def)

lemma execute_unknown_F:
  "opcode AND 0xF000 = 0xF000 \<Longrightarrow>
   opcode AND 0x00FF \<notin> {0x0007, 0x000A, 0x0015, 0x0018, 0x001E, 0x0029, 0x0033, 0x0055, 0x0065} \<Longrightarrow>
   execute emu opcode rnd = Inr (emu, [UnknownOpcodeIn 0xF000 opcode], Break)"
  by (simp add: execute_def op_F000_def Let_def)

lemma execute_unknown:
  assumes "unknown_secondary opcode"
  shows "execute emu opcode rnd = Inr (emu, [UnknownOpcodeIn (opcode AND 0xF000) opcode], Break)"
proof -
  from assms consider
      "opcode AND 0xF000 = 0x0000" "opcode AND 0x00FF \<notin> {0x00E0, 0x00EE}"
    | "opcode AND 0xF000 = 0x8000"
      "opcode AND 0x000F \<notin> {0x0, 0x1, 0x2, 0x3, 0x4, 0x5, 0x6, 0x7, 0xE}"
    | "opcode AND 0xF000 = 0xE000" "opcode AND 0x00FF \<notin> {0x009E, 0x00A1}"
    | "opcode AND 0xF000 = 0xF000"
      "opcode AND 0x00FF \<notin> {0x0007, 0x000A, 0x0015, 0x0018, 0x001E, 0x0029, 0x0033, 0x0055, 0x0065}"
    unfolding unknown_secondary_def Let_def by blast
  then show ?thesis
  proof cases
    case 1
    then show ?thesis using execute_unknown_0 [of opcode emu rnd] by simp
  next
    case 2
    then show ?thesis using execute_unknown_8 [of opcode emu rnd] by simp
  next
    case 3
    then show ?thesis using execute_unknown_E [of opcode emu rnd] by simp
  next
    case 4
    then show ?thesis using execute_unknown_F [of opcode emu rnd] by simp
  qed
qed

text \<open>
  Claim C2 (amended). For every instruction word of class 0x0, 0x8, 0xE or 0xF
  whose secondary code matches no case label, the cycle reports the unknown
  opcode (with the tag of its class) and leaves the program counter and every
  other field as they were, except that the two timers tick as in every
  cycle (each decremented when non-zero, with the beep when the sound timer
  was 1). The program counter is not advanced.
\<close>

theorem unknown_secondary_reports_and_stalls:
  assumes "fetch emu = Inr opcode" and "unknown_secondary opcode"
  shows "emulation_cycle emu rnd =
         Inr (emu\<lparr>delay_timer := (if 0 < delay_timer emu then delay_timer emu - 1
                                   else delay_timer emu),
                  sound_timer := (if 0 < sound_timer emu then sound_timer emu - 1
                                   else sound_timer emu)\<rparr>,
              UnknownOpcodeIn (opcode AND 0xF000) opcode #
              (if sound_timer emu = 1 then [Beep] else []))"
  using assms by (simp add: emulation_cycle_def execute_unknown tick_timers_eq)

theorem unknown_secondary_reports_and_stalls_witness:
  "fetch ((init emulator_zero)\<lparr>delay_timer := 3, sound_timer := 1\<rparr>) = Inr 0x0000 \<and>
   unknown_secondary 0x0000 \<and>
   emulation_cycle ((init emulator_zero)\<lparr>delay_timer := 3, sound_timer := 1\<rparr>) 0 =
     Inr ((init emulator_zero)\<lparr>delay_timer := 2, sound_timer := 0\<rparr>,
          [UnknownOpcodeIn 0x0000 0x0000, Beep])"
proof -
  let ?s = "(init emulator_zero)\<lparr>delay_timer := 3, sound_timer := 1\<rparr>"
  have f: "fetch ?s = Inr 0x0000"
    by (simp add: fetch_def mem_read_def boot_defs write_bytes_apply font_set_def)
  have u: "unknown_secondary 0x0000"
    by (simp add: unknown_secondary_def)
  show ?thesis
    using unknown_secondary_reports_and_stalls [OF f u, of 0] f u by simp
qed

text \<open>
  Counterexample to claim C2 as stated (the counter advances by 2): on the
  program 80 08 the cycle reports the opcode and the program counter is
  still 0x200.
\<close>

theorem unknown_8008_does_not_advance:
  "case emulation_cycle
          (fst (snd (load_rom (init emulator_zero) (Some (RomFile 2 [0x80, 0x08]))))) 0 of
     Inl e \<Rightarrow> False
   | Inr (emu', out) \<Rightarrow>
       out = [UnknownOpcodeIn 0x8000 0x8008] \<and>
       program_counter (fst (snd (load_rom (init emulator_zero) (Some (RomFile 2 [0x80, 0x08]))))) = 0x200 \<and>
       program_counter emu' = 0x200"
  by (simp add: cycle_defs boot_defs)

section \<open>The loader: success and failure\<close>

text \<open>
  Claim C5. For every program image \<open>bytes\<close> of length L, held by a file that
  reads in full: if L \<le> 3583 the loader succeeds, the memory cells from 0x200
  to 0x200 + L hold the bytes of the image in order, and the recorded image
  length is L; if L > 3583 the loader fails, reporting that the image is too
  large, and the machine state is the one it was given.
\<close>

theorem load_rom_commits_image:
  "(length bytes \<le> 3583 \<longrightarrow>
      (\<exists>emu' out. load_rom emu (Some (RomFile (length bytes) bytes)) = (True, emu', out) \<and>
         (\<forall>i < length bytes. memory emu' (0x200 + i) = bytes ! i) \<and>
         unat (rom_size emu') = length bytes)) \<and>
   (3583 < length bytes \<longrightarrow>
      load_rom emu (Some (RomFile (length bytes) bytes)) =
        (False, emu, [RomTooLarge (length bytes), LoadingRom False]))"
proof (intro conjI impI)
  assume le: "length bytes \<le> 3583"
  have "length bytes < 2 ^ 32" using le by simp
  then have "unat (of_nat (length bytes) :: u32) = length bytes"
    by (simp add: unat_of_nat take_bit_nat_eq_self)
  then show "\<exists>emu' out. load_rom emu (Some (RomFile (length bytes) bytes)) = (True, emu', out) \<and>
         (\<forall>i < length bytes. memory emu' (0x200 + i) = bytes ! i) \<and>
         unat (rom_size emu') = length bytes"
    by (simp add: load_rom_full_read [OF le] write_bytes_apply)
next
  assume "3583 < length bytes"
  then show "load_rom emu (Some (RomFile (length bytes) bytes)) =
        (False, emu, [RomTooLarge (length bytes), LoadingRom False])"
    using load_rom_too_large [of "RomFile (length bytes) bytes" emu] by simp
qed

theorem load_rom_commits_image_witness:
  "length [0x12, 0x01 :: u8] \<le> 3583 \<and>
   (\<exists>emu' out. load_rom (init emulator_zero) (Some (RomFile 2 [0x12, 0x01])) = (True, emu', out) \<and>
      memory emu' 0x200 = 0x12 \<and> memory emu' 0x201 = 0x01 \<and> unat (rom_size emu') = 2) \<and>
   3583 < length (replicate 3584 (0 :: u8)) \<and>
   load_rom (init emulator_zero) (Some (RomFile 3584 (replicate 3584 0))) =
     (False, init emulator_zero, [RomTooLarge 3584, LoadingRom False])"
proof -
  have a: "length [0x12, 0x01 :: u8] \<le> 3583" by simp
  have b: "3583 < length (replicate 3584 (0 :: u8))" by simp
  let ?bs = "[0x12, 0x01] :: u8 list"
  from load_rom_commits_image [of ?bs "init emulator_zero"] a
  have "\<exists>emu' out. load_rom (init emulator_zero) (Some (RomFile (length ?bs) ?bs)) = (True, emu', out) \<and>
         (\<forall>i < length ?bs. memory emu' (0x200 + i) = ?bs ! i) \<and>
         unat (rom_size emu') = length ?bs"
    by blast
  then obtain emu' out where
    1: "load_rom (init emulator_zero) (Some (RomFile (length ?bs) ?bs)) = (True, emu', out)" and
    2: "\<forall>i < length ?bs. memory emu' (0x200 + i) = ?bs ! i" and
    3: "unat (rom_size emu') = length ?bs"
    by blast
  from 2 [rule_format, of 0] 2 [rule_format, of 1]
  have 4: "memory emu' 0x200 = 0x12" "memory emu' 0x201 = 0x01" by simp_all
  have l: "length ?bs = 2" by simp
  from 1 have 1: "load_rom (init emulator_zero) (Some (RomFile 2 [0x12, 0x01])) = (True, emu', out)"
    by (simp only: l)
  from 3 have 3: "unat (rom_size emu') = 2" by (simp only: l)
  from load_rom_commits_image [of "replicate 3584 0" "init emulator_zero"] b
  have 5: "load_rom (init emulator_zero) (Some (RomFile 3584 (replicate 3584 0))) =
     (False, init emulator_zero, [RomTooLarge 3584, LoadingRom False])"
    by simp
  from a b 1 3 4 5 show ?thesis by blast
qed

text \<open>
  Claim C6 (amended). When the loader fails because the file cannot be opened
  or because the image is too large, the machine state is exactly as it was
  before the attempt. When it fails because the read stopped early, the
  recorded image length and every field other than memory are as before and
  memory is unchanged outside the bytes delivered: the cells from 0x200 on
  hold the bytes that were read, since \<^verbatim>\<open>fread\<close> stores straight into memory.
\<close>

theorem load_rom_failure_frame:
  assumes "load_rom emu fp = (False, emu', out)"
  shows "case fp of
           None \<Rightarrow> emu' = emu
         | Some f \<Rightarrow>
             if 3583 < file_size f then
               emu' = emu \<and> out = [RomTooLarge (file_size f), LoadingRom False]
             else
               length (file_data f) < file_size f \<and>
               emu' = emu\<lparr>memory :=
                        (\<lambda>a. if 0x200 \<le> a \<and> a < 0x200 + length (file_data f)
                             then file_data f ! (a - 0x200) else memory emu a)\<rparr>"
proof (cases fp)
  case None
  with assms show ?thesis by (simp add: load_rom_def)
next
  case (Some f)
  show ?thesis
  proof (cases "3583 < file_size f")
    case True
    with assms Some show ?thesis by (simp add: load_rom_too_large)
  next
    case False
    with assms Some have short: "length (file_data f) < file_size f"
      by (auto simp: load_rom_def Let_def split: if_splits)
    then have "take (file_size f) (file_data f) = file_data f" by simp
    with assms Some False short show ?thesis
      by (simp add: load_rom_def Let_def write_bytes_fun split: if_splits)
  qed
qed

theorem load_rom_failure_frame_witness:
  "load_rom (init emulator_zero) (Some (RomFile 2 [0xAB])) =
     (False,
      (init emulator_zero)\<lparr>memory := (memory (init emulator_zero))(0x200 := 0xAB)\<rparr>,
      [LoadingRom False]) \<and>
   load_rom (init emulator_zero) (Some (RomFile 3584 (replicate 3584 0))) =
     (False, init emulator_zero, [RomTooLarge 3584, LoadingRom False]) \<and>
   load_rom (init emulator_zero) None = (False, init emulator_zero, [LoadingRom False])"
proof -
  have 1: "load_rom (init emulator_zero) (Some (RomFile 2 [0xAB])) =
     (False, (init emulator_zero)\<lparr>memory := (memory (init emulator_zero))(0x200 := 0xAB)\<rparr>,
      [LoadingRom False])"
    by (simp add: load_rom_def)
  have 2: "load_rom (init emulator_zero) (Some (RomFile 3584 (replicate 3584 0))) =
     (False, init emulator_zero, [RomTooLarge 3584, LoadingRom False])"
    by (simp add: load_rom_def)
  have 3: "load_rom (init emulator_zero) None = (False, init emulator_zero, [LoadingRom False])"
    by (simp add: load_rom_def)
  note load_rom_failure_frame [OF 1] load_rom_failure_frame [OF 2] load_rom_failure_frame [OF 3]
  with 1 2 3 show ?thesis by simp
qed

text \<open>
  Counterexample to claim C6 as stated (no partial write is visible on any
  failure): a file that reports two bytes and delivers one, 0xAB. The loader
  fails, and the cell 0x200, which held 0, holds 0xAB.
\<close>

theorem short_read_leaves_partial_image:
  "case load_rom (init emulator_zero) (Some (RomFile 2 [0xAB])) of
     (ok, emu', out) \<Rightarrow>
       \<not> ok \<and> memory emu' 0x200 = 0xAB \<and> memory (init emulator_zero) 0x200 = 0x00"
  by (simp add: load_rom_def init_def emulator_zero_def write_bytes_apply font_set_def)

section \<open>Wait for key (FX0A)\<close>

lemma scan_fold:
  "fold (\<lambda>i (emu', key_pressed).
           if keys emu' i \<noteq> 0 then (set_reg emu' x (of_nat i), True)
           else (emu', key_pressed))
        js (emu\<lparr>registers := r\<rparr>, p) =
   (let ks = filter (\<lambda>i. keys emu i \<noteq> 0) js
    in if ks = [] then (emu\<lparr>registers := r\<rparr>, p)
       else (emu\<lparr>registers := r(x := of_nat (last ks))\<rparr>, True))"
  (is "fold ?step js _ = _")
proof (induction js arbitrary: r p)
  case Nil
  then show ?case by simp
next
  case (Cons j js)
  show ?case
  proof (cases "keys emu j \<noteq> 0")
    case True
    have "fold ?step (j # js) (emu\<lparr>registers := r\<rparr>, p) =
          fold ?step js (emu\<lparr>registers := r(x := of_nat j)\<rparr>, True)"
      using True by (simp add: set_reg_def)
    also have "\<dots> = (let ks = filter (\<lambda>i. keys emu i \<noteq> 0) js
        in if ks = [] then (emu\<lparr>registers := r(x := of_nat j)\<rparr>, True)
           else (emu\<lparr>registers := (r(x := of_nat j))(x := of_nat (last ks))\<rparr>, True))"
      by (rule Cons.IH)
    also have "\<dots> = (let ks = filter (\<lambda>i. keys emu i \<noteq> 0) (j # js)
        in if ks = [] then (emu\<lparr>registers := r\<rparr>, p)
           else (emu\<lparr>registers := r(x := of_nat (last ks))\<rparr>, True))"
      using True by (simp add: Let_def)
    finally show ?thesis .
  next
    case False
    have "fold ?step (j # js) (emu\<lparr>registers := r\<rparr>, p) =
          fold ?step js (emu\<lparr>registers := r\<rparr>, p)"
      using False by simp
    also have "\<dots> = (let ks = filter (\<lambda>i. keys emu i \<noteq> 0) js
        in if ks = [] then (emu\<lparr>registers := r\<rparr>, p)
           else (emu\<lparr>registers := r(x := of_nat (last ks))\<rparr>, True))"
      by (rule Cons.IH)
    also have "\<dots> = (let ks = filter (\<lambda>i. keys emu i \<noteq> 0) (j # js)
        in if ks = [] then (emu\<lparr>registers := r\<rparr>, p)
           else (emu\<lparr>registers := r(x := of_nat (last ks))\<rparr>, True))"
      using False by (simp add: Let_def)
    finally show ?thesis .
  qed
qed

lemma scan_keys_eq:
  "scan_keys emu x =
   (let ks = filter (\<lambda>i. keys emu i \<noteq> 0) [0..<16]
    in if ks = [] then (emu, False) else (set_reg emu x (of_nat (last ks)), True))"
  using scan_fold [where x = x and js = "[0..<16]" and emu = emu and r = "registers emu" and p = False]
  by (simp add: scan_keys_def set_reg_def Let_def)

lemma sorted_le_last: "sorted (xs :: nat list) \<Longrightarrow> j \<in> set xs \<Longrightarrow> j \<le> last xs"
  by (induction xs) auto

lemma last_filter_upt:
  assumes "filter P [0..<n] \<noteq> []"
  shows "last (filter P [0..<n]) < n \<and> P (last (filter P [0..<n])) \<and>
         (\<forall>j<n. last (filter P [0..<n]) < j \<longrightarrow> \<not> P j)"
proof -
  let ?ks = "filter P [0..<n]"
  have mem: "last ?ks \<in> set ?ks" using assms by (rule last_in_set)
  have srt: "sorted ?ks" by (simp add: sorted_wrt_filter)
  have "\<forall>j \<in> set ?ks. j \<le> last ?ks"
    using srt by (blast intro: sorted_le_last)
  with mem show ?thesis by auto
qed

lemma execute_wait_key:
  assumes "opcode AND 0xF000 = 0xF000" and "opcode AND 0x00FF = 0x000A"
  shows "execute emu opcode rnd =
         (case scan_keys emu (VX opcode) of
            (emu1, key_pressed) \<Rightarrow>
              if key_pressed then Inr (advance emu1 2, [], Break) else Inr (emu1, [], Return))"
  using assms by (simp add: execute_def op_F000_def Let_def)

text \<open>
  Claim C7. For every state whose cycle fetches the wait-for-key instruction
  FX0A: if none of the sixteen key flags is set, the cycle returns the state
  it was given (no field changes, the timers included, and the program
  counter does not advance) and prints nothing; if some key flag is set, the
  highest-indexed set key \<open>k\<close> is stored into register X, the program counter
  advances by exactly 2, and the cycle ends with the timer tick.
\<close>

theorem wait_for_key:
  assumes "fetch emu = Inr opcode"
    and "opcode AND 0xF000 = 0xF000" and "opcode AND 0x00FF = 0x000A"
  shows "((\<forall>i<16. keys emu i = 0) \<longrightarrow> emulation_cycle emu rnd = Inr (emu, [])) \<and>
         ((\<exists>i<16. keys emu i \<noteq> 0) \<longrightarrow>
            (\<exists>k emu' out. k < 16 \<and> keys emu k \<noteq> 0 \<and> (\<forall>j<16. k < j \<longrightarrow> keys emu j = 0) \<and>
               emulation_cycle emu rnd = Inr (emu', out) \<and>
               (emu', out) = tick_timers (advance (set_reg emu (VX opcode) (of_nat k)) 2) \<and>
               registers emu' (VX opcode) = of_nat k \<and>
               program_counter emu' = program_counter emu + 2 \<and>
               unat (program_counter emu') = unat (program_counter emu) + 2))"
proof (intro conjI impI)
  let ?ks = "filter (\<lambda>i. keys emu i \<noteq> 0) [0..<16]"
  assume "\<forall>i<16. keys emu i = 0"
  then have "?ks = []" by (simp add: filter_empty_conv)
  then have "scan_keys emu (VX opcode) = (emu, False)" by (simp add: scan_keys_eq)
  then have "execute emu opcode rnd = Inr (emu, [], Return)"
    using assms(2,3) by (simp add: execute_wait_key)
  with assms(1) show "emulation_cycle emu rnd = Inr (emu, [])" by (rule flag_Return_cycle)
next
  let ?ks = "filter (\<lambda>i. keys emu i \<noteq> 0) [0..<16]"
  let ?k = "last ?ks"
  let ?e = "advance (set_reg emu (VX opcode) (of_nat ?k)) 2"
  assume "\<exists>i<16. keys emu i \<noteq> 0"
  then have ne: "?ks \<noteq> []" by (auto simp: filter_empty_conv)
  note L = last_filter_upt [OF ne]
  have k: "?k < 16" "keys emu ?k \<noteq> 0" "\<forall>j<16. ?k < j \<longrightarrow> keys emu j = 0"
    using L by blast+
  from ne have "scan_keys emu (VX opcode) = (set_reg emu (VX opcode) (of_nat ?k), True)"
    by (simp add: scan_keys_eq)
  then have "execute emu opcode rnd = Inr (?e, [], Break)"
    using assms(2,3) by (simp add: execute_wait_key)
  with assms(1) have cyc: "emulation_cycle emu rnd = Inr (fst (tick_timers ?e), snd (tick_timers ?e))"
    using flag_Break_cycle [of emu opcode rnd ?e "[]"] by simp
  have regs: "registers (fst (tick_timers ?e)) (VX opcode) = of_nat ?k"
    by (simp add: tick_timers_eq advance_def set_reg_def)
  have pc: "program_counter (fst (tick_timers ?e)) = program_counter emu + 2"
    by (simp add: tick_timers_eq advance_def set_reg_def)
  have upc: "unat (program_counter emu + 2) = unat (program_counter emu) + 2"
    using fetch_in_range [OF assms(1)] by (rule pc_plus_2)
  show "\<exists>k emu' out. k < 16 \<and> keys emu k \<noteq> 0 \<and> (\<forall>j<16. k < j \<longrightarrow> keys emu j = 0) \<and>
               emulation_cycle emu rnd = Inr (emu', out) \<and>
               (emu', out) = tick_timers (advance (set_reg emu (VX opcode) (of_nat k)) 2) \<and>
               registers emu' (VX opcode) = of_nat k \<and>
               program_counter emu' = program_counter emu + 2 \<and>
               unat (program_counter emu') = unat (program_counter emu) + 2"
  proof (intro exI conjI)
    show "?k < 16" by (fact k)
    show "keys emu ?k \<noteq> 0" by (fact k)
    show "\<forall>j<16. ?k < j \<longrightarrow> keys emu j = 0" by (fact k)
    show "emulation_cycle emu rnd = Inr (fst (tick_timers ?e), snd (tick_timers ?e))" by (fact cyc)
    show "(fst (tick_timers ?e), snd (tick_timers ?e)) = tick_timers ?e" by simp
    show "registers (fst (tick_timers ?e)) (VX opcode) = of_nat ?k" by (fact regs)
    show "program_counter (fst (tick_timers ?e)) = program_counter emu + 2" by (fact pc)
    show "unat (program_counter (fst (tick_timers ?e))) = unat (program_counter emu) + 2"
      by (simp only: pc upc)
  qed
qed

theorem wait_for_key_witness:
  "fetch (fst (snd (load_rom (init emulator_zero) (Some (RomFile 2 [0xF3, 0x0A]))))) = Inr 0xF30A \<and>
   emulation_cycle (fst (snd (load_rom (init emulator_zero) (Some (RomFile 2 [0xF3, 0x0A]))))) 0 =
     Inr (fst (snd (load_rom (init emulator_zero) (Some (RomFile 2 [0xF3, 0x0A])))), []) \<and>
   (\<exists>emu' out.
      emulation_cycle
        ((fst (snd (load_rom (init emulator_zero) (Some (RomFile 2 [0xF3, 0x0A])))))
           \<lparr>keys := (\<lambda>i. if i = 2 \<or> i = 9 then 1 else 0)\<rparr>) 0 = Inr (emu', out) \<and>
      registers emu' 3 = 9 \<and> program_counter emu' = 0x202)"
proof -
  let ?s0 = "fst (snd (load_rom (init emulator_zero) (Some (RomFile 2 [0xF3, 0x0A]))))"
  let ?s1 = "?s0\<lparr>keys := (\<lambda>i. if i = 2 \<or> i = 9 then 1 else 0)\<rparr>"
  have f0: "fetch ?s0 = Inr 0xF30A" by (simp add: fetch_def mem_read_def boot_defs)
  have f1: "fetch ?s1 = Inr 0xF30A" by (simp add: fetch_def mem_read_def boot_defs)
  have a: "(0xF30A :: u16) AND 0xF000 = 0xF000" by simp
  have b: "(0xF30A :: u16) AND 0x00FF = 0x000A" by simp
  have x: "VX 0xF30A = 3" by (simp add: VX_def)
  have pc: "program_counter ?s1 = 0x200" by (simp add: boot_defs)
  have none: "\<forall>i<16. keys ?s0 i = 0" by (simp add: boot_defs)
  have some: "\<exists>i<16. keys ?s1 i \<noteq> 0" by (intro exI [of _ 2]) simp
  from wait_for_key [OF f0 a b, of 0] none
  have 0: "emulation_cycle ?s0 0 = Inr (?s0, [])" by blast
  from wait_for_key [OF f1 a b, of 0] some
  obtain k emu' out where k: "k < 16" "keys ?s1 k \<noteq> 0" "\<forall>j<16. k < j \<longrightarrow> keys ?s1 j = 0"
    and c: "emulation_cycle ?s1 0 = Inr (emu', out)"
    and r: "registers emu' (VX 0xF30A) = of_nat k"
    and p: "program_counter emu' = program_counter ?s1 + 2"
    by blast
  from k(2) have "k = 2 \<or> k = 9" by (simp split: if_splits)
  moreover from k(3) have "\<not> k < 9" by (auto dest: spec [of _ 9])
  ultimately have "k = 9" by auto
  with r x have "registers emu' 3 = 9" by simp
  moreover from p pc have "program_counter emu' = 0x202" by simp
  ultimately show ?thesis using f0 0 c by blast
qed

section \<open>Call and return (2NNN, 00EE)\<close>

lemma execute_call:
  assumes "opcode AND 0xF000 = 0x2000" and "unat (stack_ptr emu) < 16"
  shows "execute emu opcode rnd =
         Inr (emu\<lparr>stack := (stack emu)(unat (stack_ptr emu) := program_counter emu),
                  stack_ptr := stack_ptr emu + 1,
                  program_counter := opcode AND 0x0FFF\<rparr>, [], Break)"
  using assms by (simp add: execute_def Let_def)

lemma execute_return:
  assumes "opcode AND 0xF000 = 0x0000" and "opcode AND 0x00FF = 0x00EE"
    and "unat (stack_ptr emu - 1) < 16"
  shows "execute emu opcode rnd =
         Inr (emu\<lparr>stack_ptr := stack_ptr emu - 1,
                  program_counter := stack emu (unat (stack_ptr emu - 1)) + 2\<rparr>, [], Break)"
  using assms by (simp add: execute_def op_0000_def advance_def Let_def)

text \<open>
  Claim C9. For every state with program counter \<open>p\<close> and stack pointer
  \<open>s < 16\<close> whose cycle fetches a call 2NNN: the cycle succeeds, stores \<open>p\<close> at
  stack slot \<open>s\<close>, sets the stack pointer to \<open>s + 1\<close> and the program counter to
  NNN; and in any later state whose stack pointer and sixteen stack slots are
  those the call left, a cycle that fetches the return 00EE succeeds, sets
  the program counter to \<open>p + 2\<close> and restores the stack pointer to \<open>s\<close>.
\<close>

theorem call_return_round_trip:
  assumes "fetch emu = Inr opcode" and "opcode AND 0xF000 = 0x2000"
    and "unat (stack_ptr emu) < 16"
  shows "\<exists>emu1 out1.
           emulation_cycle emu rnd = Inr (emu1, out1) \<and>
           program_counter emu1 = opcode AND 0x0FFF \<and>
           stack emu1 = (stack emu)(unat (stack_ptr emu) := program_counter emu) \<and>
           stack_ptr emu1 = stack_ptr emu + 1 \<and>
           (\<forall>emu2 ret rnd'.
              stack_ptr emu2 = stack_ptr emu1 \<and> (\<forall>i<16. stack emu2 i = stack emu1 i) \<and>
              fetch emu2 = Inr ret \<and> ret AND 0xF000 = 0x0000 \<and> ret AND 0x00FF = 0x00EE \<longrightarrow>
              (\<exists>emu3 out3.
                 emulation_cycle emu2 rnd' = Inr (emu3, out3) \<and>
                 program_counter emu3 = program_counter emu + 2 \<and>
                 unat (program_counter emu3) = unat (program_counter emu) + 2 \<and>
                 stack_ptr emu3 = stack_ptr emu))"
proof -
  let ?c = "emu\<lparr>stack := (stack emu)(unat (stack_ptr emu) := program_counter emu),
                stack_ptr := stack_ptr emu + 1,
                program_counter := opcode AND 0x0FFF\<rparr>"
  let ?emu1 = "fst (tick_timers ?c)"
  have call: "emulation_cycle emu rnd = Inr (?emu1, [] @ snd (tick_timers ?c))"
    using assms(1) execute_call [OF assms(2,3)] by (rule flag_Break_cycle)
  have ret: "\<exists>emu3 out3.
                 emulation_cycle emu2 rnd' = Inr (emu3, out3) \<and>
                 program_counter emu3 = program_counter emu + 2 \<and>
                 unat (program_counter emu3) = unat (program_counter emu) + 2 \<and>
                 stack_ptr emu3 = stack_ptr emu"
    if sp: "stack_ptr emu2 = stack_ptr ?emu1" and st: "\<forall>i<16. stack emu2 i = stack ?emu1 i"
      and f: "fetch emu2 = Inr ret" and r: "ret AND 0xF000 = 0x0000" "ret AND 0x00FF = 0x00EE"
    for emu2 ret rnd'
  proof -
    have sp': "stack_ptr emu2 - 1 = stack_ptr emu" using sp by (simp add: tick_timers_frame)
    then have lt: "unat (stack_ptr emu2 - 1) < 16" using assms(3) by simp
    have top: "stack emu2 (unat (stack_ptr emu2 - 1)) = program_counter emu"
      using st assms(3) sp' by (simp add: tick_timers_frame)
    let ?r = "emu2\<lparr>stack_ptr := stack_ptr emu2 - 1,
                    program_counter := stack emu2 (unat (stack_ptr emu2 - 1)) + 2\<rparr>"
    have "emulation_cycle emu2 rnd' = Inr (fst (tick_timers ?r), [] @ snd (tick_timers ?r))"
      using f execute_return [OF r lt] by (rule flag_Break_cycle)
    moreover have "program_counter (fst (tick_timers ?r)) = program_counter emu + 2"
      using top by (simp add: tick_timers_frame)
    moreover have "unat (program_counter emu + 2) = unat (program_counter emu) + 2"
      using fetch_in_range [OF assms(1)] by (rule pc_plus_2)
    moreover have "stack_ptr (fst (tick_timers ?r)) = stack_ptr emu"
      using sp' by (simp add: tick_timers_frame)
    ultimately show ?thesis by metis
  qed
  have later: "\<forall>emu2 ret rnd'.
              stack_ptr emu2 = stack_ptr ?emu1 \<and> (\<forall>i<16. stack emu2 i = stack ?emu1 i) \<and>
              fetch emu2 = Inr ret \<and> ret AND 0xF000 = 0x0000 \<and> ret AND 0x00FF = 0x00EE \<longrightarrow>
              (\<exists>emu3 out3.
                 emulation_cycle emu2 rnd' = Inr (emu3, out3) \<and>
                 program_counter emu3 = program_counter emu + 2 \<and>
                 unat (program_counter emu3) = unat (program_counter emu) + 2 \<and>
                 stack_ptr emu3 = stack_ptr emu)"
    using ret by blast
  have "program_counter ?emu1 = opcode AND 0x0FFF"
    and "stack ?emu1 = (stack emu)(unat (stack_ptr emu) := program_counter emu)"
    and "stack_ptr ?emu1 = stack_ptr emu + 1"
    by (simp_all add: tick_timers_frame)
  with call later show ?thesis by blast
qed

theorem call_return_round_trip_witness:
  "fetch (fst (snd (load_rom (init emulator_zero)
            (Some (RomFile 6 [0x22, 0x04, 0x00, 0x00, 0x00, 0xEE]))))) = Inr 0x2204 \<and>
   (\<exists>emu1 out1 emu3 out3.
      emulation_cycle (fst (snd (load_rom (init emulator_zero)
            (Some (RomFile 6 [0x22, 0x04, 0x00, 0x00, 0x00, 0xEE]))))) 0 = Inr (emu1, out1) \<and>
      program_counter emu1 = 0x204 \<and> stack_ptr emu1 = 1 \<and> fetch emu1 = Inr 0x00EE \<and>
      emulation_cycle emu1 0 = Inr (emu3, out3) \<and>
      program_counter emu3 = 0x202 \<and> stack_ptr emu3 = 0)"
proof -
  let ?s0 = "fst (snd (load_rom (init emulator_zero)
            (Some (RomFile 6 [0x22, 0x04, 0x00, 0x00, 0x00, 0xEE]))))"
  let ?e1 = "?s0\<lparr>stack := (stack ?s0)(0 := 0x200), stack_ptr := 1, program_counter := 0x204\<rparr>"
  have f: "fetch ?s0 = Inr 0x2204" by (simp add: fetch_def mem_read_def boot_defs)
  have c: "(0x2204 :: u16) AND 0xF000 = 0x2000" by simp
  have s: "unat (stack_ptr ?s0) < 16" by (simp add: boot_defs)
  have pc0: "program_counter ?s0 = 0x200" and sp0: "stack_ptr ?s0 = 0" by (simp_all add: boot_defs)
  have e: "emulation_cycle ?s0 0 = Inr (?e1, [])" by (simp add: cycle_defs boot_defs)
  have f1: "fetch ?e1 = Inr 0x00EE" by (simp add: fetch_def mem_read_def boot_defs)
  from call_return_round_trip [OF f c s, of 0]
  obtain emu1 out1 where cyc: "emulation_cycle ?s0 0 = Inr (emu1, out1)"
    and pc1: "program_counter emu1 = 0x2204 AND 0x0FFF"
    and sp1: "stack_ptr emu1 = stack_ptr ?s0 + 1"
    and later: "\<forall>emu2 ret rnd'.
              stack_ptr emu2 = stack_ptr emu1 \<and> (\<forall>i<16. stack emu2 i = stack emu1 i) \<and>
              fetch emu2 = Inr ret \<and> ret AND 0xF000 = 0x0000 \<and> ret AND 0x00FF = 0x00EE \<longrightarrow>
              (\<exists>emu3 out3.
                 emulation_cycle emu2 rnd' = Inr (emu3, out3) \<and>
                 program_counter emu3 = program_counter ?s0 + 2 \<and>
                 unat (program_counter emu3) = unat (program_counter ?s0) + 2 \<and>
                 stack_ptr emu3 = stack_ptr ?s0)"
    by blast
  from cyc e have eq: "emu1 = ?e1" by simp
  have r: "(0x00EE :: u16) AND 0xF000 = 0x0000" "(0x00EE :: u16) AND 0x00FF = 0x00EE" by simp_all
  from f1 eq have f1': "fetch emu1 = Inr 0x00EE" by simp
  from later f1' r obtain emu3 out3 where
    3: "emulation_cycle emu1 0 = Inr (emu3, out3)"
       "program_counter emu3 = program_counter ?s0 + 2" "stack_ptr emu3 = stack_ptr ?s0"
    by blast
  from pc1 have "program_counter emu1 = 0x204" by simp
  moreover from sp1 sp0 have "stack_ptr emu1 = 1" by simp
  moreover from 3(2) pc0 have "program_counter emu3 = 0x202" by simp
  moreover from 3(3) sp0 have "stack_ptr emu3 = 0" by simp
  ultimately show ?thesis using f cyc f1' 3(1) by blast
qed

section \<open>Shifts (8XY6, 8XYE)\<close>

lemma execute_shift_right:
  assumes "opcode AND 0xF000 = 0x8000" and "opcode AND 0x000F = 0x0006"
  shows "execute emu opcode rnd =
         Inr (emu\<lparr>registers :=
                    ((registers emu)(0xF := registers emu (VX opcode) AND 0x01))
                      (VX opcode :=
                         drop_bit 1 (((registers emu)(0xF := registers emu (VX opcode) AND 0x01))
                                       (VX opcode))),
                  program_counter := program_counter emu + 2\<rparr>, [], Break)"
  using assms by (simp add: execute_def op_8000_def set_reg_def advance_def Let_def)

lemma execute_shift_left:
  assumes "opcode AND 0xF000 = 0x8000" and "opcode AND 0x000F = 0x000E"
  shows "execute emu opcode rnd =
         Inr (emu\<lparr>registers :=
                    ((registers emu)(0xF := drop_bit 7 (registers emu (VX opcode))))
                      (VX opcode :=
                         push_bit 1 (((registers emu)(0xF := drop_bit 7 (registers emu (VX opcode))))
                                       (VX opcode))),
                  program_counter := program_counter emu + 2\<rparr>, [], Break)"
  using assms by (simp add: execute_def op_8000_def set_reg_def advance_def Let_def)

text \<open>
  Claim C10. For every state whose cycle fetches a shift 8XY6 or 8XYE: the
  cycle succeeds; shift-right stores bit 0 of register X in VF and then
  halves register X in place, shift-left stores bit 7 of register X in VF and
  then doubles register X in place on 8 bits (so with X = 0xF the second store
  acts on the flag just written); the program counter advances by 2. Register
  Y is not read: for Y other than X, the same cycle from a state that differs
  only in the value \<open>v\<close> of register Y prints the same, and its result differs
  from the first result at most in register Y; VF and register X are the same.
\<close>

theorem shifts_ignore_VY:
  assumes "fetch emu = Inr opcode" and "opcode AND 0xF000 = 0x8000"
    and "opcode AND 0x000F = 0x0006 \<or> opcode AND 0x000F = 0x000E"
  shows "\<exists>emu' out.
           emulation_cycle emu rnd = Inr (emu', out) \<and>
           registers emu' =
             (if opcode AND 0x000F = 0x0006 then
                ((registers emu)(0xF := registers emu (VX opcode) AND 0x01))
                  (VX opcode :=
                     drop_bit 1 (((registers emu)(0xF := registers emu (VX opcode) AND 0x01))
                                   (VX opcode)))
              else
                ((registers emu)(0xF := drop_bit 7 (registers emu (VX opcode))))
                  (VX opcode :=
                     push_bit 1 (((registers emu)(0xF := drop_bit 7 (registers emu (VX opcode))))
                                   (VX opcode)))) \<and>
           (VX opcode \<noteq> 0xF \<longrightarrow>
              registers emu' 0xF =
                (if opcode AND 0x000F = 0x0006 then registers emu (VX opcode) AND 0x01
                 else drop_bit 7 (registers emu (VX opcode))) \<and>
              registers emu' (VX opcode) =
                (if opcode AND 0x000F = 0x0006 then drop_bit 1 (registers emu (VX opcode))
                 else push_bit 1 (registers emu (VX opcode)))) \<and>
           program_counter emu' = program_counter emu + 2 \<and>
           (\<forall>v. VY opcode \<noteq> VX opcode \<longrightarrow>
              (\<exists>emu'' out''.
                 emulation_cycle (set_reg emu (VY opcode) v) rnd = Inr (emu'', out'') \<and>
                 out'' = out \<and>
                 emu'' = emu'\<lparr>registers := (registers emu')(VY opcode := registers emu'' (VY opcode))\<rparr> \<and>
                 registers emu'' 0xF = registers emu' 0xF \<and>
                 registers emu'' (VX opcode) = registers emu' (VX opcode)))"
  using assms(3)
proof
  assume code: "opcode AND 0x000F = 0x0006"
  note ex = execute_shift_right [OF assms(2) code]
  have f': "fetch (set_reg emu (VY opcode) v) = Inr opcode" for v
    using assms(1) by (simp add: fetch_set_reg)
  show ?thesis
    apply (simp only: cycle_Break [OF assms(1) ex] cycle_Break [OF f' ex] code)
    apply (auto simp: set_reg_def fun_eq_iff)
    done
next
  assume code: "opcode AND 0x000F = 0x000E"
  note ex = execute_shift_left [OF assms(2) code]
  have f': "fetch (set_reg emu (VY opcode) v) = Inr opcode" for v
    using assms(1) by (simp add: fetch_set_reg)
  show ?thesis
    apply (simp only: cycle_Break [OF assms(1) ex] cycle_Break [OF f' ex] code)
    apply (auto simp: set_reg_def fun_eq_iff)
    done
qed

theorem shifts_ignore_VY_witness:
  "fetch ((fst (snd (load_rom (init emulator_zero) (Some (RomFile 2 [0x81, 0x26])))))
            \<lparr>registers := (\<lambda>_. 0)(1 := 0x05)\<rparr>) = Inr 0x8126 \<and>
   VX 0x8126 = 1 \<and> VY 0x8126 = 2 \<and>
   (\<exists>emu' out emu'' out''.
      emulation_cycle
        ((fst (snd (load_rom (init emulator_zero) (Some (RomFile 2 [0x81, 0x26])))))
           \<lparr>registers := (\<lambda>_. 0)(1 := 0x05)\<rparr>) 0 = Inr (emu', out) \<and>
      registers emu' 0xF = 1 \<and> registers emu' 1 = 2 \<and> program_counter emu' = 0x202 \<and>
      emulation_cycle
        (set_reg ((fst (snd (load_rom (init emulator_zero) (Some (RomFile 2 [0x81, 0x26])))))
                    \<lparr>registers := (\<lambda>_. 0)(1 := 0x05)\<rparr>) 2 0x77) 0 = Inr (emu'', out'') \<and>
      registers emu'' 0xF = 1 \<and> registers emu'' 1 = 2)"
proof -
  let ?s = "(fst (snd (load_rom (init emulator_zero) (Some (RomFile 2 [0x81, 0x26])))))
              \<lparr>registers := (\<lambda>_. 0)(1 := 0x05)\<rparr>"
  have f: "fetch ?s = Inr 0x8126" by (simp add: fetch_def mem_read_def boot_defs)
  have c: "(0x8126 :: u16) AND 0xF000 = 0x8000" by simp
  have code: "(0x8126 :: u16) AND 0x000F = 0x0006 \<or> (0x8126 :: u16) AND 0x000F = 0x000E" by simp
  have x: "VX 0x8126 = 1" and y: "VY 0x8126 = 2" by (simp_all add: VX_def VY_def)
  have pc: "program_counter ?s = 0x200" and r1: "registers ?s 1 = 5" by (simp_all add: boot_defs)
  from shifts_ignore_VY [OF f c code, of 0]
  obtain emu' out where cyc: "emulation_cycle ?s 0 = Inr (emu', out)"
    and fl: "VX 0x8126 \<noteq> 0xF \<longrightarrow>
              registers emu' 0xF =
                (if (0x8126 :: u16) AND 0x000F = 0x0006 then registers ?s (VX 0x8126) AND 0x01
                 else drop_bit 7 (registers ?s (VX 0x8126))) \<and>
              registers emu' (VX 0x8126) =
                (if (0x8126 :: u16) AND 0x000F = 0x0006 then drop_bit 1 (registers ?s (VX 0x8126))
                 else push_bit 1 (registers ?s (VX 0x8126)))"
    and p: "program_counter emu' = program_counter ?s + 2"
    and other: "\<forall>v. VY 0x8126 \<noteq> VX 0x8126 \<longrightarrow>
              (\<exists>emu'' out''.
                 emulation_cycle (set_reg ?s (VY 0x8126) v) 0 = Inr (emu'', out'') \<and>
                 out'' = out \<and>
                 emu'' = emu'\<lparr>registers := (registers emu')(VY 0x8126 := registers emu'' (VY 0x8126))\<rparr> \<and>
                 registers emu'' 0xF = registers emu' 0xF \<and>
                 registers emu'' (VX 0x8126) = registers emu' (VX 0x8126))"
    by blast
  from fl x r1 have regs: "registers emu' 0xF = 1" "registers emu' 1 = 2" by simp_all
  from p pc have pc': "program_counter emu' = 0x202" by simp
  from other x y obtain emu'' out'' where
    b: "emulation_cycle (set_reg ?s 2 0x77) 0 = Inr (emu'', out'')"
       "registers emu'' 0xF = registers emu' 0xF" "registers emu'' 1 = registers emu' 1"
    by (auto dest: spec [of _ "0x77"])
  from b(2,3) regs have "registers emu'' 0xF = 1" "registers emu'' 1 = 2" by simp_all
  with f x y cyc regs pc' b(1) show ?thesis by blast
qed

section \<open>Parity of the program counter\<close>

lemma fold_fault_same_ctl:
  assumes "\<And>x s s'. f x s = Inr s' \<Longrightarrow> same_ctl s s'"
  shows "fold_fault f xs s = Inr s' \<Longrightarrow> same_ctl s s'"
proof (induction xs arbitrary: s)
  case Nil
  then show ?case by (simp add: same_ctl_def)
next
  case (Cons x xs)
  from Cons.prems obtain s1 where 1: "f x s = Inr s1" and 2: "fold_fault f xs s1 = Inr s'"
    by (auto split: sum.splits)
  from assms [OF 1] Cons.IH [OF 2] show ?case by (simp add: same_ctl_def)
qed

lemma plot_same_ctl: "plot vx vy y x emu = Inr emu' \<Longrightarrow> same_ctl emu emu'"
  by (auto simp: plot_def same_ctl_def set_reg_def Let_def split: if_splits)

lemma draw_row_same_ctl:
  assumes "draw_row vx vy y emu = Inr emu'"
  shows "same_ctl emu emu'"
proof -
  from assms obtain row :: u8 where
    "fold_fault (\<lambda>x emu'. let col = row AND drop_bit x 0x80
                    in if col \<noteq> 0 then plot vx vy y x emu' else Inr emu') [0..<8] emu = Inr emu'"
    by (auto simp: draw_row_def split: sum.splits)
  then show ?thesis
    by (rule fold_fault_same_ctl [rotated])
       (auto simp: Let_def same_ctl_def split: if_splits dest: plot_same_ctl)
qed

lemma op_D000_ctl:
  assumes "op_D000 emu opcode = Inr (emu', out, fl)"
  shows "program_counter emu' = program_counter emu + 2 \<and> stack emu' = stack emu"
proof -
  let ?e1 = "set_reg emu 0xF 0"
  from assms obtain emu2 where
    f: "fold_fault (draw_row (unat (registers emu (VX opcode))) (unat (registers emu (VY opcode))))
          [0..<unat (opcode AND 0x000F)] ?e1 = Inr emu2"
    and e: "emu' = advance (emu2\<lparr>draw_flag := True\<rparr>) 2"
    by (auto simp: op_D000_def Let_def split: sum.splits)
  from f have "same_ctl ?e1 emu2"
    by (rule fold_fault_same_ctl [rotated]) (rule draw_row_same_ctl)
  with e show ?thesis by (simp add: same_ctl_def set_reg_def advance_def)
qed

lemma ctl_advance_even: "ctl_advance emu emu' \<Longrightarrow> ctl_even emu \<Longrightarrow> ctl_even emu'"
  by (auto simp: ctl_advance_def ctl_even_def)

lemma op_8000_ctl: "op_8000 emu opcode = Inr (emu', out, fl) \<Longrightarrow> ctl_advance emu emu'"
  by (auto simp: op_8000_def ctl_advance_def set_reg_def advance_def Let_def split: if_splits)

lemma op_E000_ctl: "op_E000 emu opcode = Inr (emu', out, fl) \<Longrightarrow> ctl_advance emu emu'"
  by (auto simp: op_E000_def ctl_advance_def advance_def Let_def split: if_splits)

lemma mem_write_same_ctl: "mem_write emu a v = Inr emu' \<Longrightarrow> same_ctl emu emu'"
  by (auto simp: mem_write_def same_ctl_def split: if_splits)

lemma same_ctl_advance: "same_ctl emu emu1 \<Longrightarrow> ctl_advance emu (advance emu1 2)"
  by (simp add: same_ctl_def ctl_advance_def advance_def)

lemma scan_keys_same_ctl: "scan_keys emu x = (emu1, p) \<Longrightarrow> same_ctl emu emu1"
  by (auto simp: scan_keys_eq same_ctl_def set_reg_def Let_def split: if_splits)

lemma op_F000_ctl:
  assumes "op_F000 emu opcode = Inr (emu', out, fl)"
  shows "ctl_advance emu emu'"
proof -
  let ?code = "opcode AND 0x00FF"
  consider "?code = 0x0007" | "?code = 0x000A" | "?code = 0x0015" | "?code = 0x0018"
    | "?code = 0x001E" | "?code = 0x0029" | "?code = 0x0033" | "?code = 0x0055" | "?code = 0x0065"
    | "?code \<notin> {0x0007, 0x000A, 0x0015, 0x0018, 0x001E, 0x0029, 0x0033, 0x0055, 0x0065}"
    by blast
  then show ?thesis
  proof cases
    case 1
    with assms show ?thesis
      by (auto simp: op_F000_def ctl_advance_def set_reg_def advance_def Let_def)
  next
    case 2
    with assms show ?thesis
      by (auto simp: op_F000_def Let_def split: prod.splits if_splits
          dest!: scan_keys_same_ctl simp: same_ctl_def ctl_advance_def advance_def)
  next
    case 3
    with assms show ?thesis
      by (auto simp: op_F000_def ctl_advance_def set_reg_def advance_def Let_def)
  next
    case 4
    with assms show ?thesis
      by (auto simp: op_F000_def ctl_advance_def set_reg_def advance_def Let_def)
  next
    case 5
    with assms show ?thesis
      by (auto simp: op_F000_def ctl_advance_def set_reg_def advance_def Let_def)
  next
    case 6
    with assms show ?thesis
      by (auto simp: op_F000_def ctl_advance_def set_reg_def advance_def Let_def)
  next
    case 7
    with assms show ?thesis
      by (auto simp: op_F000_def Let_def split: sum.splits
          dest!: mem_write_same_ctl simp: same_ctl_def ctl_advance_def advance_def)
  next
    case 8
    with assms obtain emu1 where
      f: "fold_fault (\<lambda>i emu'. mem_write emu' (unat (index_register emu') + i) (registers emu' i))
            [0..<VX opcode + 1] emu = Inr emu1" and e: "emu' = advance emu1 2"
      by (auto simp: op_F000_def Let_def split: sum.splits)
    from f have "same_ctl emu emu1"
      by (rule fold_fault_same_ctl [rotated]) (rule mem_write_same_ctl)
    with e show ?thesis by (simp add: same_ctl_advance)
  next
    case 9
    with assms obtain emu1 where
      f: "fold_fault (\<lambda>i emu'. case mem_read emu' (unat (index_register emu') + i) of
                           Inl e \<Rightarrow> Inl e
                         | Inr v \<Rightarrow> Inr (set_reg emu' i v))
            [0..<VX opcode + 1] emu = Inr emu1" and e: "emu' = advance emu1 2"
      by (auto simp: op_F000_def Let_def split: sum.splits)
    from f have "same_ctl emu emu1"
      by (rule fold_fault_same_ctl [rotated])
         (auto simp: same_ctl_def set_reg_def split: sum.splits)
    with e show ?thesis by (simp add: same_ctl_advance)
  next
    case 10
    with assms show ?thesis
      by (auto simp: op_F000_def ctl_advance_def Let_def)
  qed
qed

lemma op_0000_ctl:
  assumes "ctl_even emu" and "op_0000 emu opcode = Inr (emu', out, fl)"
  shows "ctl_even emu'"
  using assms
  by (auto simp: op_0000_def ctl_even_def advance_def Let_def split: if_splits)

lemma execute_ctl:
  assumes inv: "ctl_even emu"
    and tgt: "opcode AND 0xF000 = 0x1000 \<or> opcode AND 0xF000 = 0x2000 \<longrightarrow> even (opcode AND 0x0FFF)"
    and off: "opcode AND 0xF000 = 0xB000 \<longrightarrow> even ((opcode AND 0x0FFF) + ucast (registers emu 0))"
    and ex: "execute emu opcode rnd = Inr (emu', out, fl)"
  shows "ctl_even emu'"
proof -
  let ?cls = "opcode AND 0xF000"
  consider "?cls = 0x0000" | "?cls = 0x1000" | "?cls = 0x2000" | "?cls = 0x8000" | "?cls = 0xB000"
    | "?cls = 0xD000" | "?cls = 0xE000" | "?cls = 0xF000"
    | "?cls \<notin> {0x0000, 0x1000, 0x2000, 0x8000, 0xB000, 0xD000, 0xE000, 0xF000}"
    by blast
  then show ?thesis
  proof cases
    case 1
    with ex have "op_0000 emu opcode = Inr (emu', out, fl)" by (simp add: execute_def)
    with inv show ?thesis by (rule op_0000_ctl)
  next
    case 2
    with ex inv tgt show ?thesis by (auto simp: execute_def ctl_even_def)
  next
    case 3
    with ex inv tgt show ?thesis
      by (auto simp: execute_def ctl_even_def Let_def split: if_splits)
  next
    case 4
    with ex have "op_8000 emu opcode = Inr (emu', out, fl)" by (simp add: execute_def)
    then show ?thesis using inv by (blast intro: ctl_advance_even op_8000_ctl)
  next
    case 5
    with ex inv off show ?thesis by (auto simp: execute_def ctl_even_def)
  next
    case 6
    with ex have "op_D000 emu opcode = Inr (emu', out, fl)" by (simp add: execute_def)
    from op_D000_ctl [OF this] inv show ?thesis by (simp add: ctl_even_def)
  next
    case 7
    with ex have "op_E000 emu opcode = Inr (emu', out, fl)" by (simp add: execute_def)
    then show ?thesis using inv by (blast intro: ctl_advance_even op_E000_ctl)
  next
    case 8
    with ex have "op_F000 emu opcode = Inr (emu', out, fl)" by (simp add: execute_def)
    then show ?thesis using inv by (blast intro: ctl_advance_even op_F000_ctl)
  next
    case 9
    with ex have "ctl_advance emu emu'"
      by (auto simp: execute_def ctl_advance_def set_reg_def advance_def Let_def split: if_splits)
    then show ?thesis using inv by (rule ctl_advance_even)
  qed
qed

lemma tick_timers_ctl: "ctl_even (fst (tick_timers emu)) = ctl_even emu"
  by (simp add: ctl_even_def tick_timers_frame)

lemma emulation_cycle_ctl:
  assumes "ctl_even emu" and "even_transfer emu" and "emulation_cycle emu rnd = Inr (emu', out)"
  shows "ctl_even emu'"
proof -
  from assms(3) obtain opcode where f: "fetch emu = Inr opcode"
    by (auto simp: emulation_cycle_def split: sum.splits)
  from assms(3) f obtain emu1 out1 fl where ex: "execute emu opcode rnd = Inr (emu1, out1, fl)"
    and res: "emu' = (case fl of Return \<Rightarrow> emu1 | Break \<Rightarrow> fst (tick_timers emu1))"
    by (auto simp: emulation_cycle_def split: sum.splits flow.splits prod.splits)
  from assms(2) f
  have tgt: "opcode AND 0xF000 = 0x1000 \<or> opcode AND 0xF000 = 0x2000 \<longrightarrow> even (opcode AND 0x0FFF)"
    and off: "opcode AND 0xF000 = 0xB000 \<longrightarrow> even ((opcode AND 0x0FFF) + ucast (registers emu 0))"
    by (simp_all add: even_transfer_def Let_def)
  from execute_ctl [OF assms(1) tgt off ex] have "ctl_even emu1" .
  with res show ?thesis by (cases fl) (simp_all add: tick_timers_ctl)
qed

lemma load_rom_ctl:
  assumes "load_rom (init emulator_zero) fp = (True, emu, out)"
  shows "program_counter emu = 0x200 \<and> stack emu = (\<lambda>_. 0)"
  using assms
  by (auto simp: load_rom_def init_def emulator_zero_def Let_def split: option.splits if_splits)

text \<open>
  Claim C8 (amended). The program counter is initialised to 0x200, and it is
  even in every machine state produced from the initial state, for any loaded
  program, any key input and any random values, by a sequence of executed
  cycles in which
  \<^item> no cycle indexes \<^verbatim>\<open>memory\<close>, \<^verbatim>\<open>gfx\<close>, \<^verbatim>\<open>stack\<close> or \<^verbatim>\<open>keys\<close> outside the
    bounds of the array (every cycle of the run ends in \<open>Inr\<close>), and
  \<^item> every jump 1NNN and call 2NNN has an even NNN and every jump with offset
    BNNN an even NNN + V0.
  Both conditions are premises of the rule \<open>cycle\<close> of \<open>in_bounds_even_run\<close>.
  Without the first the claim is not made: an out-of-bounds store is undefined
  behaviour in C and can overwrite a return address or the program counter
  itself, as \<open>even_run_reaches_fault\<close> below shows for a draw at row 32.
\<close>

theorem in_bounds_even_run_pc_even:
  "program_counter (init emu0) = 0x200 \<and>
   (in_bounds_even_run emu \<longrightarrow> even (unat (program_counter emu)))"
proof (intro conjI impI)
  show "program_counter (init emu0) = 0x200" by (simp add: init_def)
next
  assume "in_bounds_even_run emu"
  then have "ctl_even emu"
  proof (induction rule: in_bounds_even_run.induct)
    case (loaded fp emu out)
    from load_rom_ctl [OF loaded] show ?case by (simp add: ctl_even_def)
  next
    case (cycle emu ks rnd emu' out)
    from cycle.IH have "ctl_even (emu\<lparr>keys := ks\<rparr>)" by (simp add: ctl_even_def)
    then show ?case using cycle.hyps(2,3) by (rule emulation_cycle_ctl)
  qed
  then have "even (program_counter emu)" by (simp add: ctl_even_def)
  then show "even (unat (program_counter emu))" by (simp only: even_unat_word)
qed

theorem in_bounds_even_run_pc_even_witness:
  "even_transfer
     ((fst (snd (load_rom (init emulator_zero) (Some (RomFile 2 [0x12, 0x04])))))
        \<lparr>keys := (\<lambda>i. if i = 3 then 1 else 0)\<rparr>) \<and>
   emulation_cycle
     ((fst (snd (load_rom (init emulator_zero) (Some (RomFile 2 [0x12, 0x04])))))
        \<lparr>keys := (\<lambda>i. if i = 3 then 1 else 0)\<rparr>) 0 =
     Inr ((fst (snd (load_rom (init emulator_zero) (Some (RomFile 2 [0x12, 0x04])))))
            \<lparr>keys := (\<lambda>i. if i = 3 then 1 else 0), program_counter := 0x204\<rparr>, []) \<and>
   in_bounds_even_run
     ((fst (snd (load_rom (init emulator_zero) (Some (RomFile 2 [0x12, 0x04])))))
        \<lparr>keys := (\<lambda>i. if i = 3 then 1 else 0), program_counter := 0x204\<rparr>) \<and>
   even (unat (program_counter
     ((fst (snd (load_rom (init emulator_zero) (Some (RomFile 2 [0x12, 0x04])))))
        \<lparr>keys := (\<lambda>i. if i = 3 then 1 else 0), program_counter := 0x204\<rparr>)))"
proof -
  let ?l = "load_rom (init emulator_zero) (Some (RomFile 2 [0x12, 0x04]))"
  let ?s0 = "fst (snd ?l)"
  let ?k = "\<lambda>i :: nat. if i = 3 then 1 else 0 :: u8"
  let ?s1 = "?s0\<lparr>keys := ?k, program_counter := 0x204\<rparr>"
  have "fst ?l = True" by (simp add: load_rom_def)
  then have "?l = (True, ?s0, snd (snd ?l))" by (metis prod.collapse)
  then have a0: "in_bounds_even_run ?s0" by (rule in_bounds_even_run.loaded)
  have f: "fetch (?s0\<lparr>keys := ?k\<rparr>) = Inr 0x1204" by (simp add: fetch_def mem_read_def boot_defs)
  have t: "even_transfer (?s0\<lparr>keys := ?k\<rparr>)" by (simp add: even_transfer_def f)
  have c: "emulation_cycle (?s0\<lparr>keys := ?k\<rparr>) 0 = Inr (?s1, [])"
    by (simp add: cycle_defs boot_defs)
  from a0 t c have a1: "in_bounds_even_run ?s1" by (rule in_bounds_even_run.cycle)
  from in_bounds_even_run_pc_even [of emulator_zero ?s1] a1
  have "even (unat (program_counter ?s1))" by blast
  with t c a1 show ?thesis by blast
qed

text \<open>
  Counterexample to claim C8 as stated (the program counter is even in every
  reachable state): the program 12 01 loads, the machine starts at 0x200, and
  its first cycle, the jump 1201, leaves the program counter at 0x201.
\<close>

theorem jump_to_odd_address:
  "case load_rom (init emulator_zero) (Some (RomFile 2 [0x12, 0x01])) of
     (ok, emu, out) \<Rightarrow>
       ok \<and> program_counter emu = 0x200 \<and>
       (case emulation_cycle emu 0 of
          Inl e \<Rightarrow> False
        | Inr (emu', out') \<Rightarrow>
            program_counter emu' = 0x201 \<and> odd (unat (program_counter emu')))"
  by (simp add: cycle_defs boot_defs)

text \<open>
  The in-bounds premise of \<open>in_bounds_even_run\<close> is needed. The program
  60 01 61 20 A2 08 D0 11 80 sets V0 = 1, V1 = 32 and the index register to its
  sprite byte 0x80, with no jump at all; its first three cycles stay inside
  the arrays, and the fourth, the draw D011, addresses cell 32 * 64 + 1 = 2049
  of \<^verbatim>\<open>gfx\<close>. The model stops with the fault. The C program goes on: the
  store lands past \<^verbatim>\<open>gfx\<close> in \<^verbatim>\<open>struct emulator\<close>, where the timers, the
  stack and the stack pointer follow, so a later return can load an odd
  address although no jump, call or jump with offset went to one.
\<close>

lemma even_run_reaches_fault:
  "in_bounds_even_run
     ((fst (snd (load_rom (init emulator_zero)
         (Some (RomFile 9 [0x60, 0x01, 0x61, 0x20, 0xA2, 0x08, 0xD0, 0x11, 0x80])))))
        \<lparr>keys := (\<lambda>_. 0), registers := (\<lambda>_. 0)(0 := 1, 1 := 32),
         index_register := 0x208, program_counter := 0x206\<rparr>) \<and>
   even_transfer
     ((fst (snd (load_rom (init emulator_zero)
         (Some (RomFile 9 [0x60, 0x01, 0x61, 0x20, 0xA2, 0x08, 0xD0, 0x11, 0x80])))))
        \<lparr>keys := (\<lambda>_. 0), registers := (\<lambda>_. 0)(0 := 1, 1 := 32),
         index_register := 0x208, program_counter := 0x206\<rparr>) \<and>
   emulation_cycle
     ((fst (snd (load_rom (init emulator_zero)
         (Some (RomFile 9 [0x60, 0x01, 0x61, 0x20, 0xA2, 0x08, 0xD0, 0x11, 0x80])))))
        \<lparr>keys := (\<lambda>_. 0), registers := (\<lambda>_. 0)(0 := 1, 1 := 32),
         index_register := 0x208, program_counter := 0x206\<rparr>) rnd
     = Inl (GfxOutOfBounds 2049)"
proof -
  let ?l = "load_rom (init emulator_zero)
              (Some (RomFile 9 [0x60, 0x01, 0x61, 0x20, 0xA2, 0x08, 0xD0, 0x11, 0x80]))"
  let ?s0 = "fst (snd ?l)"
  let ?k = "\<lambda>_ :: nat. 0 :: u8"
  let ?s1 = "?s0\<lparr>keys := ?k, registers := (\<lambda>_. 0)(0 := 1), program_counter := 0x202\<rparr>"
  let ?s2 = "?s0\<lparr>keys := ?k, registers := (\<lambda>_. 0)(0 := 1, 1 := 32),
                program_counter := 0x204\<rparr>"
  let ?s3 = "?s0\<lparr>keys := ?k, registers := (\<lambda>_. 0)(0 := 1, 1 := 32),
                index_register := 0x208, program_counter := 0x206\<rparr>"
  have "?l = (True, ?s0, snd (snd ?l))" by (simp add: load_rom_def)
  then have r0: "in_bounds_even_run ?s0" by (rule in_bounds_even_run.loaded)
  have f0: "fetch (?s0\<lparr>keys := ?k\<rparr>) = Inr 0x6001"
    by (simp add: fetch_def mem_read_def boot_defs)
  have t0: "even_transfer (?s0\<lparr>keys := ?k\<rparr>)" unfolding even_transfer_def by (simp only: f0 sum.case Let_def) simp
  have c0: "emulation_cycle (?s0\<lparr>keys := ?k\<rparr>) 0 = Inr (?s1, [])"
    by (simp add: cycle_defs boot_defs)
  from r0 t0 c0 have r1: "in_bounds_even_run ?s1" by (rule in_bounds_even_run.cycle)
  have f1: "fetch (?s1\<lparr>keys := ?k\<rparr>) = Inr 0x6120"
    by (simp add: fetch_def mem_read_def boot_defs)
  have t1: "even_transfer (?s1\<lparr>keys := ?k\<rparr>)" unfolding even_transfer_def by (simp only: f1 sum.case Let_def) simp
  have c1: "emulation_cycle (?s1\<lparr>keys := ?k\<rparr>) 0 = Inr (?s2, [])"
    by (simp add: cycle_defs boot_defs)
  from r1 t1 c1 have r2: "in_bounds_even_run ?s2" by (rule in_bounds_even_run.cycle)
  have f2: "fetch (?s2\<lparr>keys := ?k\<rparr>) = Inr 0xA208"
    by (simp add: fetch_def mem_read_def boot_defs)
  have t2: "even_transfer (?s2\<lparr>keys := ?k\<rparr>)" unfolding even_transfer_def by (simp only: f2 sum.case Let_def) simp
  have c2: "emulation_cycle (?s2\<lparr>keys := ?k\<rparr>) 0 = Inr (?s3, [])"
    by (simp add: cycle_defs boot_defs)
  from r2 t2 c2 have r3: "in_bounds_even_run ?s3" by (rule in_bounds_even_run.cycle)
  have f3: "fetch ?s3 = Inr 0xD011" by (simp add: fetch_def mem_read_def boot_defs)
  have t3: "even_transfer ?s3" unfolding even_transfer_def by (simp only: f3 sum.case Let_def) simp
  have c3: "emulation_cycle ?s3 rnd = Inl (GfxOutOfBounds 2049)"
    by (simp add: cycle_defs boot_defs upt_0_8)
  from r3 t3 c3 show ?thesis by (intro conjI)
qed

end
